theory Spec2Isabelle
  imports Complex_Main "HOL-Library.Stream"
begin

section \<open>Python exceptions\<close>

text \<open>
  Every exception the modelled code can raise is a value: a function that may raise
  returns \<open>py_error + 'a\<close>, with \<open>Inl\<close> for the exception.
\<close>

datatype py_error = ValueError | IndexError | TypeError

section \<open>numpy arrays\<close>

text \<open>
  A numpy array is its dtype tag, its shape and its elements in row-major (C) order, as
  numpy lays out a contiguous array.
\<close>

record ('t, 'a) ndarray =
  dtype :: 't
  shape :: "nat list"
  data :: "'a list"

definition well_formed :: "('t, 'a) ndarray \<Rightarrow> bool" where
  "well_formed a \<longleftrightarrow> length (data a) = prod_list (shape a)"

text \<open>Row-major position of a full index tuple.\<close>

fun flat_index :: "nat list \<Rightarrow> nat list \<Rightarrow> nat" where
  "flat_index (n # ns) (i # js) = i * prod_list ns + flat_index ns js"
| "flat_index _ _ = 0"

text \<open>
  \<open>X[i0, ..., ik]\<close> with one non-negative integer per axis: the element there, or
  IndexError when the tuple has the wrong length or an index is out of bounds.
\<close>

definition item :: "('t, 'a) ndarray \<Rightarrow> nat list \<Rightarrow> py_error + 'a" where
  "item X idx =
     (if list_all2 (\<lambda>i n. i < n) idx (shape X)
      then Inr (data X ! flat_index (shape X) idx)
      else Inl IndexError)"

text \<open>The index tuple moved by one start offset per leading axis.\<close>

fun offset_index :: "nat list \<Rightarrow> nat list \<Rightarrow> nat list" where
  "offset_index (s # ss) (i # js) = (s + i) # offset_index ss js"
| "offset_index _ js = js"

subsection \<open>Basic slicing\<close>

text \<open>
  A Python \<open>slice(start, stop)\<close> object with step \<open>None\<close>. On an axis of length
  \<open>n\<close>, \<open>slice.indices\<close> moves a negative bound up by \<open>n\<close> and clips both bounds
  into \<open>0..n\<close>; the slice selects \<open>stop - start\<close> positions when that is positive and
  none otherwise.
\<close>

type_synonym slice = "int \<times> int"

definition adjust_index :: "nat \<Rightarrow> int \<Rightarrow> nat" where
  "adjust_index n v =
     (if v < 0 then (if v + int n < 0 then 0 else nat (v + int n))
      else if v \<ge> int n then n
      else nat v)"

definition slice_indices :: "slice \<Rightarrow> nat \<Rightarrow> nat \<times> nat" where
  "slice_indices sl n =
     (let start = adjust_index n (fst sl); stop = adjust_index n (snd sl)
      in (start, if start < stop then stop - start else 0))"

text \<open>
  The elements selected by one (first position, count) pair per leading axis, in row-major
  order; axes without a pair are taken whole.
\<close>

fun gather :: "nat list \<Rightarrow> (nat \<times> nat) list \<Rightarrow> 'a list \<Rightarrow> 'a list" where
  "gather (n # ns) ((lo, len) # ss) xs =
     concat (map (\<lambda>i. gather ns ss (take (prod_list ns) (drop (i * prod_list ns) xs)))
                 [lo..<lo + len])"
| "gather _ _ xs = xs"

definition selection :: "slice list \<Rightarrow> nat list \<Rightarrow> (nat \<times> nat) list" where
  "selection sls sh = map (\<lambda>(sl, n). slice_indices sl n) (zip sls sh)"

text \<open>
  For the proofs: a selection fits a shape when every pair stays inside its axis, and
  \<open>sliced\<close> is the shape it leaves.
\<close>

fun fits :: "nat list \<Rightarrow> (nat \<times> nat) list \<Rightarrow> bool" where
  "fits (n # ns) ((lo, len) # ss) \<longleftrightarrow> lo + len \<le> n \<and> fits ns ss"
| "fits _ [] \<longleftrightarrow> True"
| "fits [] (_ # _) \<longleftrightarrow> False"

fun sliced :: "nat list \<Rightarrow> (nat \<times> nat) list \<Rightarrow> nat list" where
  "sliced (n # ns) ((lo, len) # ss) = len # sliced ns ss"
| "sliced sh _ = sh"

text \<open>
  \<open>X[slices]\<close> for a tuple of slices: IndexError when there are more slices than axes
  (numpy: "too many indices for array").
\<close>

definition getitem :: "('t, 'a) ndarray \<Rightarrow> slice list \<Rightarrow> py_error + ('t, 'a) ndarray" where
  "getitem X sls =
     (if length sls > length (shape X) then Inl IndexError
      else
        let sel = selection sls (shape X)
        in Inr (X\<lparr>shape := map snd sel @ drop (length sls) (shape X),
                  data := gather (shape X) sel (data X)\<rparr>))"

section \<open>The random module\<close>

text \<open>
  The generator's state is the stream of raw draws still to come. \<open>_randbelow n\<close>
  consumes one and yields a value below \<open>n\<close>; every value below \<open>n\<close> is the outcome
  of some stream. \<open>randrange\<close> and \<open>randint\<close> are CPython's: an empty range raises
  ValueError.
\<close>

type_synonym rng = "nat stream"

definition randbelow :: "nat \<Rightarrow> rng \<Rightarrow> nat \<times> rng" where
  "randbelow n g = (shd g mod n, stl g)"

definition randrange :: "int \<Rightarrow> int \<Rightarrow> rng \<Rightarrow> py_error + int \<times> rng" where
  "randrange start stop g =
     (let width = stop - start
      in if width > 0
         then (case randbelow (nat width) g of (r, g') \<Rightarrow> Inr (start + int r, g'))
         else Inl ValueError)"

definition randint :: "int \<Rightarrow> int \<Rightarrow> rng \<Rightarrow> py_error + int \<times> rng" where
  "randint a b g = randrange a (b + 1) g"

section \<open>RandomCrop\<close>

record RandomCrop =
  slices :: "slice list"

text \<open>
  \<open>[random.randint(0, s - c) for s, c in zip(array.shape, crop_size)]\<close>: one draw per
  zipped axis, left to right; the first draw that raises ends the comprehension.
\<close>

fun draw_starts :: "(nat \<times> int) list \<Rightarrow> rng \<Rightarrow> py_error + int list \<times> rng" where
  "draw_starts [] g = Inr ([], g)"
| "draw_starts ((s, c) # rest) g =
     (case randint 0 (int s - c) g of
        Inl e \<Rightarrow> Inl e
      | Inr (st, g') \<Rightarrow>
          (case draw_starts rest g' of
             Inl e \<Rightarrow> Inl e
           | Inr (sts, g'') \<Rightarrow> Inr (st # sts, g'')))"

definition RandomCrop_init ::
  "('t, 'a) ndarray \<Rightarrow> int list \<Rightarrow> rng \<Rightarrow> py_error + RandomCrop \<times> rng" where
  "RandomCrop_init array crop_size g =
     (case draw_starts (zip (shape array) crop_size) g of
        Inl e \<Rightarrow> Inl e
      | Inr (start, g') \<Rightarrow>
          Inr (\<lparr>slices = map (\<lambda>(s, c). (s, s + c)) (zip start crop_size)\<rparr>, g'))"

text \<open>
  \<open>crop\<close> is a method: it takes the instance and returns it with the result, so that
  what the call does to the instance is part of the model.
\<close>

definition crop ::
  "RandomCrop \<Rightarrow> ('t, 'a) ndarray \<Rightarrow> RandomCrop \<times> (py_error + ('t, 'a) ndarray)" where
  "crop self X = (self, getitem X (slices self))"

text \<open>The start offsets an instance holds, one per stored slice.\<close>

definition starts :: "RandomCrop \<Rightarrow> nat list" where
  "starts rc = map (\<lambda>sl. nat (fst sl)) (slices rc)"

section \<open>dtypes and floating-point arrays\<close>

text \<open>
  The dtypes of the pipeline: floating types for the arithmetic, unsigned integer types
  for quantised output.
\<close>

datatype fdtype = Float16 | Float32 | Float64

datatype udtype = UInt8 | UInt16 | UInt32 | UInt64

datatype np_dtype = F fdtype | U udtype

text \<open>
  A floating-point value is a finite real number, an infinity or NaN. Zero carries no
  sign: the sign of a zero shows only in a division by it, and the one division of the
  pipeline whose divisor can be zero divides by a standard deviation, a square root,
  which is never the negative zero.
\<close>

datatype fval = Fin real | PInf | NInf | NaN

fun is_fin :: "fval \<Rightarrow> bool" where
  "is_fin (Fin x) = True"
| "is_fin PInf = False"
| "is_fin NInf = False"
| "is_fin NaN = False"

text \<open>The finite values of a list, in order.\<close>

fun finites :: "fval list \<Rightarrow> real list" where
  "finites [] = []"
| "finites (Fin x # vs) = x # finites vs"
| "finites (PInf # vs) = finites vs"
| "finites (NInf # vs) = finites vs"
| "finites (NaN # vs) = finites vs"

type_synonym farray = "(fdtype, fval) ndarray"

type_synonym uarray = "(udtype, nat) ndarray"

datatype array = FloatArray farray | UIntArray uarray

fun array_shape :: "array \<Rightarrow> nat list" where
  "array_shape (FloatArray a) = shape a"
| "array_shape (UIntArray a) = shape a"

fun array_dtype :: "array \<Rightarrow> np_dtype" where
  "array_dtype (FloatArray a) = F (dtype a)"
| "array_dtype (UIntArray a) = U (dtype a)"

subsection \<open>Formats\<close>

text \<open>
  A float format is a parameter of the model. It has a rounding \<open>rnd\<close>, which takes
  the exact result of an operation to the nearest value of the format as if the exponent
  were unbounded, and a largest finite value \<open>max_finite\<close> (\<open>None\<close>: the range is
  unbounded). As in IEEE 754, an operation on finite values yields the rounded exact
  result when that is within the range, and overflows to an infinity otherwise.
\<close>

record format =
  rnd :: "real \<Rightarrow> real"
  max_finite :: "real option"

type_synonym rounding = "fdtype \<Rightarrow> format"

definition in_range :: "format \<Rightarrow> real \<Rightarrow> bool" where
  "in_range fm y = (case max_finite fm of None \<Rightarrow> True | Some M \<Rightarrow> \<bar>y\<bar> \<le> M)"

definition fround :: "format \<Rightarrow> real \<Rightarrow> fval" where
  "fround fm x =
     (let y = rnd fm x
      in if in_range fm y then Fin y else if 0 < y then PInf else NInf)"

text \<open>The largest finite value of the IEEE 754 binary16, binary32 and binary64 formats.\<close>

fun largest :: "fdtype \<Rightarrow> real" where
  "largest Float16 = 65504"
| "largest Float32 = 2 ^ 128 - 2 ^ 104"
| "largest Float64 = 2 ^ 1024 - 2 ^ 971"

text \<open>
  Three formats. \<open>exact\<close> is real arithmetic: nothing is rounded and nothing
  overflows. \<open>bounded\<close> rounds nothing but has the range of the IEEE format of the
  dtype. \<open>fixed_point\<close> has that range too and rounds to the nearest multiple of
  1/1024, halves upwards.
\<close>

definition exact :: rounding where
  "exact d = \<lparr>rnd = (\<lambda>x. x), max_finite = None\<rparr>"

definition bounded :: rounding where
  "bounded d = \<lparr>rnd = (\<lambda>x. x), max_finite = Some (largest d)\<rparr>"

definition fixed_point :: rounding where
  "fixed_point d =
     \<lparr>rnd = (\<lambda>x. real_of_int \<lfloor>x * 1024 + 1 / 2\<rfloor> / 1024), max_finite = Some (largest d)\<rparr>"

text \<open>
  What the theorems ask of a format, all of it true of the IEEE 754 formats with
  round-to-nearest: the rounding is monotone, it leaves a representable value as it is,
  the integers up to 2048 are representable (float16 has 11 significant bits), the
  difference of two different representable values does not round to zero (gradual
  underflow), and 2048 is within the range.
\<close>

definition rounding_ok :: "(real \<Rightarrow> real) \<Rightarrow> bool" where
  "rounding_ok r \<longleftrightarrow>
     (\<forall>x y. x \<le> y \<longrightarrow> r x \<le> r y) \<and>
     (\<forall>x. r (r x) = r x) \<and>
     (\<forall>k::int. \<bar>k\<bar> \<le> 2048 \<longrightarrow> r (of_int k) = of_int k) \<and>
     (\<forall>x y. r x = x \<and> r y = y \<and> r (x - y) = 0 \<longrightarrow> x = y)"

definition format_ok :: "format \<Rightarrow> bool" where
  "format_ok fm \<longleftrightarrow> rounding_ok (rnd fm) \<and> in_range fm 2048"

text \<open>
  An array of dtype \<open>d\<close> holds values of the format of \<open>d\<close>: each finite element is
  a value the format represents.
\<close>

definition representable :: "rounding \<Rightarrow> farray \<Rightarrow> bool" where
  "representable fl a \<longleftrightarrow>
     (\<forall>x \<in> set (finites (data a)). fround (fl (dtype a)) x = Fin x)"

subsection \<open>Arithmetic and comparison of floating-point values\<close>

text \<open>
  IEEE 754 arithmetic: NaN propagates; the difference of two equal infinities, the
  product of zero and an infinity, and the quotients of zero by zero and of an infinity
  by an infinity are NaN; a finite value other than zero divided by zero is an infinity.
\<close>

fun fadd :: "format \<Rightarrow> fval \<Rightarrow> fval \<Rightarrow> fval" where
  "fadd fm (Fin x) (Fin y) = fround fm (x + y)"
| "fadd fm (Fin x) PInf = PInf"
| "fadd fm (Fin x) NInf = NInf"
| "fadd fm PInf (Fin y) = PInf"
| "fadd fm PInf PInf = PInf"
| "fadd fm NInf (Fin y) = NInf"
| "fadd fm NInf NInf = NInf"
| "fadd fm _ _ = NaN"

fun fsub :: "format \<Rightarrow> fval \<Rightarrow> fval \<Rightarrow> fval" where
  "fsub fm (Fin x) (Fin y) = fround fm (x - y)"
| "fsub fm (Fin x) PInf = NInf"
| "fsub fm (Fin x) NInf = PInf"
| "fsub fm PInf (Fin y) = PInf"
| "fsub fm PInf NInf = PInf"
| "fsub fm NInf (Fin y) = NInf"
| "fsub fm NInf PInf = NInf"
| "fsub fm _ _ = NaN"

fun fmul :: "format \<Rightarrow> fval \<Rightarrow> fval \<Rightarrow> fval" where
  "fmul fm (Fin x) (Fin y) = fround fm (x * y)"
| "fmul fm (Fin x) PInf = (if x = 0 then NaN else if 0 < x then PInf else NInf)"
| "fmul fm (Fin x) NInf = (if x = 0 then NaN else if 0 < x then NInf else PInf)"
| "fmul fm PInf (Fin y) = (if y = 0 then NaN else if 0 < y then PInf else NInf)"
| "fmul fm NInf (Fin y) = (if y = 0 then NaN else if 0 < y then NInf else PInf)"
| "fmul fm PInf PInf = PInf"
| "fmul fm PInf NInf = NInf"
| "fmul fm NInf PInf = NInf"
| "fmul fm NInf NInf = PInf"
| "fmul fm _ _ = NaN"

fun fdiv :: "format \<Rightarrow> fval \<Rightarrow> fval \<Rightarrow> fval" where
  "fdiv fm (Fin x) (Fin y) =
     (if y = 0 then (if x = 0 then NaN else if 0 < x then PInf else NInf)
      else fround fm (x / y))"
| "fdiv fm (Fin x) PInf = Fin 0"
| "fdiv fm (Fin x) NInf = Fin 0"
| "fdiv fm PInf (Fin y) = (if y < 0 then NInf else PInf)"
| "fdiv fm NInf (Fin y) = (if y < 0 then PInf else NInf)"
| "fdiv fm _ _ = NaN"

fun fsqrt :: "format \<Rightarrow> fval \<Rightarrow> fval" where
  "fsqrt fm (Fin x) = (if x < 0 then NaN else fround fm (sqrt x))"
| "fsqrt fm PInf = PInf"
| "fsqrt fm NInf = NaN"
| "fsqrt fm NaN = NaN"

text \<open>\<open>a < b\<close> and \<open>a == b\<close>: false whenever an operand is NaN.\<close>

fun fless :: "fval \<Rightarrow> fval \<Rightarrow> bool" where
  "fless (Fin x) (Fin y) = (x < y)"
| "fless (Fin x) PInf = True"
| "fless NInf (Fin y) = True"
| "fless NInf PInf = True"
| "fless _ _ = False"

fun feq :: "fval \<Rightarrow> fval \<Rightarrow> bool" where
  "feq (Fin x) (Fin y) = (x = y)"
| "feq PInf PInf = True"
| "feq NInf NInf = True"
| "feq _ _ = False"

text \<open>\<open>np.minimum\<close> and \<open>np.maximum\<close> of two values: NaN when an operand is NaN.\<close>

definition fminimum :: "fval \<Rightarrow> fval \<Rightarrow> fval" where
  "fminimum a b = (if a = NaN \<or> b = NaN then NaN else if fless b a then b else a)"

definition fmaximum :: "fval \<Rightarrow> fval \<Rightarrow> fval" where
  "fmaximum a b = (if a = NaN \<or> b = NaN then NaN else if fless a b then b else a)"

subsection \<open>Reductions\<close>

text \<open>
  \<open>np.min\<close> and \<open>np.max\<close> over all elements, the reductions of \<open>np.minimum\<close> and
  \<open>np.maximum\<close>: ValueError on a zero-size array, NaN when an element is NaN.
\<close>

definition np_min :: "farray \<Rightarrow> py_error + fval" where
  "np_min a =
     (if data a = [] then Inl ValueError
      else Inr (foldl fminimum (hd (data a)) (tl (data a))))"

definition np_max :: "farray \<Rightarrow> py_error + fval" where
  "np_max a =
     (if data a = [] then Inl ValueError
      else Inr (foldl fmaximum (hd (data a)) (tl (data a))))"

text \<open>
  The mean of a list of values: their sum divided by their number. numpy accumulates the
  sum in the format, pairwise; the model takes the exact sum of finite values, which
  overflows to an infinity when it is outside the range, and rounds the quotient once.
  The mean of no values is NaN (numpy warns and does not raise).
\<close>

definition fmean :: "format \<Rightarrow> fval list \<Rightarrow> fval" where
  "fmean fm vs =
     (if vs = [] \<or> NaN \<in> set vs \<or> (PInf \<in> set vs \<and> NInf \<in> set vs) then NaN
      else if PInf \<in> set vs then PInf
      else if NInf \<in> set vs then NInf
      else
        let s = sum_list (finites vs)
        in if is_fin (fround fm s) then fround fm (s / real (length vs)) else fround fm s)"

definition np_mean :: "rounding \<Rightarrow> farray \<Rightarrow> fval" where
  "np_mean fl a = fmean (fl (dtype a)) (data a)"

text \<open>
  \<open>np.std\<close> over all elements: the square root of the mean of the squares of the
  deviations from the mean, each deviation and each square computed in the format.
\<close>

definition np_std :: "rounding \<Rightarrow> farray \<Rightarrow> fval" where
  "np_std fl a =
     (let fm = fl (dtype a);
          m = np_mean fl a;
          dev = map (\<lambda>x. fsub fm x m) (data a)
      in fsqrt fm (fmean fm (map (\<lambda>d. fmul fm d d) dev)))"

subsection \<open>Elementwise arithmetic with a scalar\<close>

definition subtract :: "rounding \<Rightarrow> farray \<Rightarrow> fval \<Rightarrow> farray" where
  "subtract fl a s = a\<lparr>data := map (\<lambda>x. fsub (fl (dtype a)) x s) (data a)\<rparr>"

definition true_divide :: "rounding \<Rightarrow> farray \<Rightarrow> fval \<Rightarrow> farray" where
  "true_divide fl a s = a\<lparr>data := map (\<lambda>x. fdiv (fl (dtype a)) x s) (data a)\<rparr>"

definition multiply :: "rounding \<Rightarrow> farray \<Rightarrow> fval \<Rightarrow> farray" where
  "multiply fl a s = a\<lparr>data := map (\<lambda>x. fmul (fl (dtype a)) x s) (data a)\<rparr>"

text \<open>\<open>a[cond(a)] = v\<close>: the elements the condition selects become \<open>v\<close>, in place.\<close>

definition assign_where :: "(fval \<Rightarrow> bool) \<Rightarrow> fval \<Rightarrow> farray \<Rightarrow> farray" where
  "assign_where cond v a = a\<lparr>data := map (\<lambda>x. if cond x then v else x) (data a)\<rparr>"

section \<open>Normalizer\<close>

text \<open>
  On a zero-dimensional array numpy returns the results of these functions as scalars; a
  scalar has the shape \<open>()\<close> and is read here as the zero-dimensional array.
\<close>

definition normalize_image_zero_one :: "rounding \<Rightarrow> farray \<Rightarrow> py_error + farray" where
  "normalize_image_zero_one fl im =
     (case np_min im of
        Inl e \<Rightarrow> Inl e
      | Inr m \<Rightarrow>
          let im1 = subtract fl im m
          in (case np_max im1 of
                Inl e \<Rightarrow> Inl e
              | Inr mx \<Rightarrow> if fless (Fin 0) mx then Inr (true_divide fl im1 mx) else Inr im1))"

text \<open>
  \<open>normalize_image_center_scale\<close> has no exception to raise: the division by a zero
  or NaN standard deviation yields infinities and NaN.
\<close>

definition normalize_image_center_scale :: "rounding \<Rightarrow> farray \<Rightarrow> farray" where
  "normalize_image_center_scale fl im =
     (let im1 = subtract fl im (np_mean fl im)
      in true_divide fl im1 (np_std fl im1))"

definition normalize :: "rounding \<Rightarrow> farray \<Rightarrow> string \<Rightarrow> py_error + farray" where
  "normalize fl im content =
     (if content = ''Brightfield''
      then Inr (normalize_image_center_scale fl im)
      else normalize_image_zero_one fl im)"

section \<open>Quantizer\<close>

fun bits :: "udtype \<Rightarrow> nat" where
  "bits UInt8 = 8"
| "bits UInt16 = 16"
| "bits UInt32 = 32"
| "bits UInt64 = 64"

text \<open>
  \<open>np.iinfo(t)\<close>: the limits of an integer type, ValueError for a float type; and its
  \<open>max\<close>.
\<close>

fun iinfo :: "np_dtype \<Rightarrow> py_error + udtype" where
  "iinfo (U u) = Inr u"
| "iinfo (F d) = Inl ValueError"

definition iinfo_max :: "udtype \<Rightarrow> nat" where
  "iinfo_max u = 2 ^ bits u - 1"

text \<open>
  The cast of a float to an unsigned integer type truncates toward zero. A value outside
  the type's range is undefined in C: a finite one is modelled as wrapping modulo
  \<open>2 ^ bits\<close>, an infinity and NaN as 0.
\<close>

fun cast_uint :: "udtype \<Rightarrow> fval \<Rightarrow> nat" where
  "cast_uint u (Fin x) = nat ((if x \<ge> 0 then \<lfloor>x\<rfloor> else \<lceil>x\<rceil>) mod 2 ^ bits u)"
| "cast_uint u PInf = 0"
| "cast_uint u NInf = 0"
| "cast_uint u NaN = 0"

definition astype_uint :: "farray \<Rightarrow> udtype \<Rightarrow> uarray" where
  "astype_uint a u = \<lparr>dtype = u, shape = shape a, data = map (cast_uint u) (data a)\<rparr>"

text \<open>
  \<open>float_to_uint\<close> rebinds its parameter to a new array and then writes into it, so the
  arrays live in a store: a list of array objects, an object's address its position. The
  function takes the store and the address of \<open>im\<close> (an address of the store: a Python
  name always refers to a live object) and returns the store with the result.
  \<open>im * imax\<close> allocates the product, the integer \<open>imax\<close> converted to the format of
  the array; \<open>im[im == imax] = imax - 1\<close> writes into the object the local name now
  refers to; \<open>np.asarray(im, uint_dtype)\<close> converts to a different dtype and so returns
  a new array, the result.

  The product of a zero-dimensional array and a number is a numpy scalar, not an array,
  and a scalar supports no item assignment: on a zero-dimensional array the masked
  assignment raises TypeError, and no array has been allocated.
\<close>

type_synonym store = "farray list"

definition alloc :: "store \<Rightarrow> farray \<Rightarrow> store \<times> nat" where
  "alloc h a = (h @ [a], length h)"

definition float_to_uint ::
  "rounding \<Rightarrow> store \<Rightarrow> nat \<Rightarrow> np_dtype \<Rightarrow> store \<times> (py_error + uarray)" where
  "float_to_uint fl h im uint_dtype =
     (case iinfo uint_dtype of
        Inl e \<Rightarrow> (h, Inl e)
      | Inr u \<Rightarrow>
          if shape (h ! im) = [] then (h, Inl TypeError)
          else
            let imax = real (iinfo_max u + 1);
                fm = fl (dtype (h ! im));
                (h1, im1) = alloc h (multiply fl (h ! im) (fround fm imax));
                h2 = h1[im1 := assign_where (\<lambda>x. feq x (fround fm imax)) (fround fm (imax - 1))
                                 (h1 ! im1)]
            in (h2, Inr (astype_uint (h2 ! im1) u)))"

section \<open>VolumePreprocessor\<close>

text \<open>
  The image accessor is not part of the repository: an image is its
  \<open>get_image_data("ZYX", T=t, C=c)\<close>, a function of the timepoint and the channel that
  returns a three-dimensional array or raises.
\<close>

record AICSImage =
  get_image_data :: "int \<Rightarrow> int \<Rightarrow> py_error + array"

text \<open>
  \<open>a.astype(d)\<close> for a float dtype: a new array, every finite value rounded to the
  format (a value outside its range becomes an infinity).
\<close>

fun fcast :: "format \<Rightarrow> fval \<Rightarrow> fval" where
  "fcast fm (Fin x) = fround fm x"
| "fcast fm PInf = PInf"
| "fcast fm NInf = NInf"
| "fcast fm NaN = NaN"

fun astype :: "rounding \<Rightarrow> array \<Rightarrow> fdtype \<Rightarrow> farray" where
  "astype fl (FloatArray a) d =
     \<lparr>dtype = d, shape = shape a, data = map (fcast (fl d)) (data a)\<rparr>"
| "astype fl (UIntArray a) d =
     \<lparr>dtype = d, shape = shape a, data = map (\<lambda>n. fround (fl d) (real n)) (data a)\<rparr>"

text \<open>\<open>xs[i]\<close> on a Python list, for an index that is not negative.\<close>

definition list_item :: "'a list \<Rightarrow> nat \<Rightarrow> py_error + 'a" where
  "list_item xs i = (if i < length xs then Inr (xs ! i) else Inl IndexError)"

text \<open>The values of a list in ascending order, NaN last, as \<open>np.sort\<close> orders them.\<close>

definition fsort :: "fval list \<Rightarrow> fval list" where
  "fsort vs =
     filter (\<lambda>v. v = NInf) vs @ map Fin (sort (finites vs)) @
     filter (\<lambda>v. v = PInf) vs @ filter (\<lambda>v. v = NaN) vs"

text \<open>
  numpy's linear interpolation between two values: \<open>a + (b - a) * t\<close>, and
  \<open>b - (b - a) * (1 - t)\<close> when \<open>t\<close> is at least one half.
\<close>

definition lerp :: "format \<Rightarrow> fval \<Rightarrow> fval \<Rightarrow> real \<Rightarrow> fval" where
  "lerp fm a b t =
     (let d = fsub fm b a
      in if 1 / 2 \<le> t then fsub fm b (fmul fm d (fround fm (1 - t)))
         else fadd fm a (fmul fm d (fround fm t)))"

text \<open>
  \<open>np.percentile(a, q)\<close> over all elements, linear interpolation between the two closest
  ranks; NaN when an element is NaN. ValueError when \<open>q\<close> is outside 0..100; it raises
  on a zero-size array.
\<close>

definition percentile :: "rounding \<Rightarrow> farray \<Rightarrow> real \<Rightarrow> py_error + fval" where
  "percentile fl a q =
     (if q < 0 \<or> 100 < q then Inl ValueError
      else if data a = [] then Inl IndexError
      else if NaN \<in> set (data a) then Inr NaN
      else
        let s = fsort (data a);
            n = length s;
            h = (real n - 1) * (q / 100);
            lo = nat \<lfloor>h\<rfloor>;
            hi = min (lo + 1) (n - 1);
            g = h - real lo
        in Inr (lerp (fl (dtype a)) (s ! lo) (s ! hi) g))"

text \<open>\<open>np.clip(a, a_min, a_max)\<close>: \<open>minimum(maximum(a, a_min), a_max)\<close>.\<close>

definition clip :: "farray \<Rightarrow> fval \<Rightarrow> fval \<Rightarrow> farray" where
  "clip a a_min a_max = a\<lparr>data := map (\<lambda>x. fminimum (fmaximum x a_min) a_max) (data a)\<rparr>"

text \<open>
  \<open>np.median(a)\<close> over all elements: the middle value, or the mean of the two middle
  values. It does not raise: NaN on a zero-size array and when an element is NaN.
\<close>

definition median :: "rounding \<Rightarrow> farray \<Rightarrow> fval" where
  "median fl a =
     (if data a = [] \<or> NaN \<in> set (data a) then NaN
      else
        let s = fsort (data a); n = length s
        in if odd n then s ! (n div 2)
           else fmean (fl (dtype a)) [s ! (n div 2 - 1), s ! (n div 2)])"

text \<open>
  \<open>str(t)\<close> of a numpy scalar type such as \<open>np.uint16\<close>, and Python's \<open>sub in s\<close> on
  strings.
\<close>

fun dtype_name :: "np_dtype \<Rightarrow> string" where
  "dtype_name (F Float16) = ''float16''"
| "dtype_name (F Float32) = ''float32''"
| "dtype_name (F Float64) = ''float64''"
| "dtype_name (U UInt8) = ''uint8''"
| "dtype_name (U UInt16) = ''uint16''"
| "dtype_name (U UInt32) = ''uint32''"
| "dtype_name (U UInt64) = ''uint64''"

definition str_dtype :: "np_dtype \<Rightarrow> string" where
  "str_dtype t = ''<class 'numpy.'' @ dtype_name t @ '''>''"

fun contains :: "string \<Rightarrow> string \<Rightarrow> bool" where
  "contains s [] = (s = [])"
| "contains s (c # cs) = (take (length s) (c # cs) = s \<or> contains s cs)"

text \<open>
  \<open>math_dtype\<close> is a floating type and \<open>out_dtype\<close> a floating or an unsigned integer
  type. The in-place steps act on the array \<open>np.clip\<close> has just made, which nothing
  else refers to, so they are steps on its value; \<open>float_to_uint\<close> is given the
  normalised array in a store of its own. \<open>np.clip\<close> of a zero-dimensional array is a
  numpy scalar, on which the masked assignment of the median step raises TypeError.
\<close>

definition prep_fish ::
  "rounding \<Rightarrow> AICSImage \<Rightarrow> int \<Rightarrow> int \<Rightarrow> real list \<Rightarrow> bool \<Rightarrow> fdtype \<Rightarrow> np_dtype
   \<Rightarrow> py_error + array" where
  "prep_fish fl img channel T clip_percentiles median_subtract math_dtype out_dtype =
     (case get_image_data img T channel of
        Inl e \<Rightarrow> Inl e
      | Inr raw \<Rightarrow>
     let img3d = astype fl raw math_dtype in
     (case list_item clip_percentiles 0 of
        Inl e \<Rightarrow> Inl e
      | Inr q0 \<Rightarrow>
     (case percentile fl img3d q0 of
        Inl e \<Rightarrow> Inl e
      | Inr a_min \<Rightarrow>
     (case list_item clip_percentiles 1 of
        Inl e \<Rightarrow> Inl e
      | Inr q1 \<Rightarrow>
     (case percentile fl img3d q1 of
        Inl e \<Rightarrow> Inl e
      | Inr a_max \<Rightarrow>
     let clipped = clip img3d a_min a_max in
     (case (if median_subtract
            then (if shape clipped = [] then Inl TypeError
                  else Inr (assign_where (\<lambda>x. fless x (Fin 0)) (Fin 0)
                              (subtract fl clipped (median fl clipped))))
            else Inr clipped) of
        Inl e \<Rightarrow> Inl e
      | Inr img3d' \<Rightarrow>
     (case normalize_image_zero_one fl img3d' of
        Inl e \<Rightarrow> Inl e
      | Inr normed \<Rightarrow>
          if contains ''uint'' (str_dtype out_dtype)
          then (case snd (float_to_uint fl [normed] 0 out_dtype) of
                  Inl e \<Rightarrow> Inl e
                | Inr q \<Rightarrow> Inr (UIntArray q))
          else Inr (FloatArray normed))))))))"

text \<open>
  For the statements and the proofs: a constant array, the all-zero array of a shape, and
  the two steps of \<open>normalize_image_zero_one\<close> on a list of finite values.
\<close>

definition is_constant :: "('t, 'a) ndarray \<Rightarrow> bool" where
  "is_constant a \<longleftrightarrow> (\<forall>x \<in> set (data a). \<forall>y \<in> set (data a). x = y)"

definition zeros_like :: "farray \<Rightarrow> farray" where
  "zeros_like a = a\<lparr>data := map (\<lambda>x. Fin 0) (data a)\<rparr>"

definition shifted :: "(real \<Rightarrow> real) \<Rightarrow> real list \<Rightarrow> real list" where
  "shifted r xs = map (\<lambda>x. r (x - Min (set xs))) xs"

definition scaled :: "(real \<Rightarrow> real) \<Rightarrow> real list \<Rightarrow> real list" where
  "scaled r ys = map (\<lambda>y. r (y / Max (set ys))) ys"

section \<open>RandomCrop: the draws\<close>

lemma randint_cases:
  "randint a b g = (if a \<le> b then Inr (a + int (shd g mod nat (b + 1 - a)), stl g) else Inl ValueError)"
  by (simp add: randint_def randrange_def randbelow_def Let_def)

lemma randint_range:
  assumes "randint a b g = Inr (r, g')"
  shows "a \<le> r \<and> r \<le> b"
proof -
  from assms have ab: "a \<le> b" and r: "r = a + int (shd g mod nat (b + 1 - a))"
    by (auto simp: randint_cases split: if_splits)
  have "shd g mod nat (b + 1 - a) < nat (b + 1 - a)"
    using ab by (intro mod_less_divisor) simp
  with r ab show ?thesis by linarith
qed

lemma randint_error: "randint a b g = Inl e \<Longrightarrow> e = ValueError \<and> b < a"
  by (auto simp: randint_cases split: if_splits)

text \<open>Every value of the range is drawn from some generator state.\<close>

lemma randint_reaches:
  assumes "a \<le> v" and "v \<le> b"
  shows "randint a b (sconst (nat (v - a))) = Inr (v, sconst (nat (v - a)))"
  using assms by (simp add: randint_cases)

lemma draw_starts_error:
  "draw_starts zs g = Inl e \<Longrightarrow> e = ValueError"
  by (induction zs arbitrary: g) (auto split: sum.splits prod.splits dest: randint_error)

lemma draw_starts_oversize:
  "\<exists>(s, c) \<in> set zs. int s < c \<Longrightarrow> draw_starts zs g = Inl ValueError"
proof (induction zs arbitrary: g)
  case Nil
  then show ?case by simp
next
  case (Cons z zs)
  obtain s c where z: "z = (s, c)" by (cases z)
  show ?case
  proof (cases "randint 0 (int s - c) g")
    case (Inl e)
    then show ?thesis using z by (simp add: randint_error)
  next
    case (Inr p)
    obtain st g' where p: "p = (st, g')" by (cases p)
    from Inr p have "0 \<le> int s - c" using randint_range by fastforce
    with Cons.prems z have "\<exists>(s, c) \<in> set zs. int s < c" by auto
    then have "draw_starts zs g' = Inl ValueError" by (rule Cons.IH)
    with Inr p z show ?thesis by simp
  qed
qed

lemma draw_starts_ok:
  "\<forall>(s, c) \<in> set zs. c \<le> int s \<Longrightarrow> \<exists>sts g'. draw_starts zs g = Inr (sts, g')"
proof (induction zs arbitrary: g)
  case Nil
  then show ?case by simp
next
  case (Cons z zs)
  obtain s c where z: "z = (s, c)" by (cases z)
  with Cons.prems have "c \<le> int s" by simp
  then obtain st g' where r: "randint 0 (int s - c) g = Inr (st, g')"
    by (simp add: randint_cases)
  from Cons.prems have "\<forall>(s, c) \<in> set zs. c \<le> int s" by simp
  then obtain sts g'' where "draw_starts zs g' = Inr (sts, g'')"
    using Cons.IH by blast
  with r z show ?case by simp
qed

lemma draw_starts_range:
  "draw_starts zs g = Inr (sts, g') \<Longrightarrow>
   length sts = length zs \<and> (\<forall>k < length zs. 0 \<le> sts ! k \<and> sts ! k + snd (zs ! k) \<le> int (fst (zs ! k)))"
proof (induction zs arbitrary: g sts)
  case Nil
  then show ?case by simp
next
  case (Cons z zs)
  obtain s c where z: "z = (s, c)" by (cases z)
  from Cons.prems z obtain st g1 sts1 where
    r: "randint 0 (int s - c) g = Inr (st, g1)" and
    d: "draw_starts zs g1 = Inr (sts1, g')" and
    sts: "sts = st # sts1"
    by (auto split: sum.splits prod.splits)
  from r have st: "0 \<le> st \<and> st + c \<le> int s" using randint_range by fastforce
  from Cons.IH [OF d] have ih: "length sts1 = length zs"
    "\<forall>k < length zs. 0 \<le> sts1 ! k \<and> sts1 ! k + snd (zs ! k) \<le> int (fst (zs ! k))" by auto
  show ?case
  proof (intro conjI allI impI)
    show "length sts = length (z # zs)" using ih sts by simp
  next
    fix k assume "k < length (z # zs)"
    then show "0 \<le> sts ! k" using st ih sts by (cases k) auto
  next
    fix k assume "k < length (z # zs)"
    then show "sts ! k + snd ((z # zs) ! k) \<le> int (fst ((z # zs) ! k))"
      using st ih sts z by (cases k) auto
  qed
qed

section \<open>Slicing a row-major array\<close>

lemma flat_index_less:
  "list_all2 (\<lambda>i n. i < n) idx sh \<Longrightarrow> sh \<noteq> [] \<Longrightarrow> flat_index sh idx < prod_list sh"
proof (induction sh idx rule: flat_index.induct)
  case (1 n ns i js)
  then have i: "i < n" and js: "list_all2 (\<lambda>i n. i < n) js ns" by auto
  show ?case
  proof (cases "ns = []")
    case True
    with js i show ?thesis by simp
  next
    case False
    with 1 js have "flat_index ns js < prod_list ns" by simp
    moreover have "i * prod_list ns + prod_list ns \<le> n * prod_list ns"
      using i by (metis Suc_leI mult_Suc mult_le_mono1 add.commute)
    ultimately show ?thesis by simp
  qed
qed auto

lemma flat_index_le:
  "list_all2 (\<lambda>i n. i < n) idx sh \<Longrightarrow> flat_index sh idx < prod_list sh"
  by (cases "sh = []") (auto simp: flat_index_less)

lemma length_concat_const:
  "\<forall>i \<in> set ks. length (f i) = m \<Longrightarrow> length (concat (map f ks)) = length ks * m"
  by (induction ks) auto

lemma concat_const_nth:
  "\<forall>i \<in> set ks. length (f i) = m \<Longrightarrow> i < length ks \<Longrightarrow> j < m \<Longrightarrow>
   concat (map f ks) ! (i * m + j) = f (ks ! i) ! j"
proof (induction ks arbitrary: i)
  case Nil
  then show ?case by simp
next
  case (Cons k ks)
  show ?case
  proof (cases i)
    case 0
    with Cons.prems show ?thesis by (simp add: nth_append)
  next
    case (Suc i')
    with Cons.prems have "concat (map f ks) ! (i' * m + j) = f (ks ! i') ! j"
      by (intro Cons.IH) auto
    with Suc Cons.prems show ?thesis by (simp add: nth_append)
  qed
qed

lemma chunk_length:
  "length xs = n * m \<Longrightarrow> i < n \<Longrightarrow> length (take m (drop (i * m) xs)) = m"
proof -
  assume a: "length xs = n * m" "i < n"
  then have "i * m + m \<le> n * m"
    by (metis Suc_leI mult_Suc mult_le_mono1 add.commute)
  with a show ?thesis by simp
qed

lemma chunk_nth:
  "length xs = n * m \<Longrightarrow> i < n \<Longrightarrow> j < m \<Longrightarrow> take m (drop (i * m) xs) ! j = xs ! (i * m + j)"
proof -
  assume a: "length xs = n * m" "i < n" "j < m"
  then have "i * m + m \<le> n * m"
    by (metis Suc_leI mult_Suc mult_le_mono1 add.commute)
  with a show ?thesis by simp
qed

lemma sliced_eq: "fits sh sel \<Longrightarrow> map snd sel @ drop (length sel) sh = sliced sh sel"
  by (induction sh sel rule: fits.induct) auto

lemma offset_valid:
  "fits sh sel \<Longrightarrow> list_all2 (\<lambda>i n. i < n) idx (sliced sh sel) \<Longrightarrow>
   list_all2 (\<lambda>i n. i < n) (offset_index (map fst sel) idx) sh"
proof (induction sh sel arbitrary: idx rule: fits.induct)
  case (1 n ns lo len ss)
  from "1.prems" obtain i js where idx: "idx = i # js" and i: "i < len"
    and js: "list_all2 (\<lambda>i n. i < n) js (sliced ns ss)"
    by (auto simp: list_all2_Cons2)
  from "1.prems" have "lo + len \<le> n" "fits ns ss" by auto
  with "1.IH" js i idx show ?case by auto
qed auto

lemma gather_length:
  "fits sh sel \<Longrightarrow> length xs = prod_list sh \<Longrightarrow>
   length (gather sh sel xs) = prod_list (sliced sh sel)"
proof (induction sh sel xs rule: gather.induct)
  case (1 n ns lo len ss xs)
  let ?m = "prod_list ns"
  let ?f = "\<lambda>i. gather ns ss (take ?m (drop (i * ?m) xs))"
  from "1.prems" have fit: "lo + len \<le> n" "fits ns ss" and len: "length xs = n * ?m" by auto
  have "\<forall>i \<in> set [lo..<lo + len]. length (?f i) = prod_list (sliced ns ss)"
  proof
    fix i assume i: "i \<in> set [lo..<lo + len]"
    with fit have "i < n" by auto
    with len have "length (take ?m (drop (i * ?m) xs)) = ?m" by (rule chunk_length)
    with "1.IH" [OF i fit(2)] show "length (?f i) = prod_list (sliced ns ss)" by simp
  qed
  then have "length (concat (map ?f [lo..<lo + len])) = length [lo..<lo + len] * prod_list (sliced ns ss)"
    by (rule length_concat_const)
  then show ?case by simp
qed simp_all

lemma gather_nth:
  "fits sh sel \<Longrightarrow> length xs = prod_list sh \<Longrightarrow>
   list_all2 (\<lambda>i n. i < n) idx (sliced sh sel) \<Longrightarrow>
   gather sh sel xs ! flat_index (sliced sh sel) idx =
   xs ! flat_index sh (offset_index (map fst sel) idx)"
proof (induction sh sel xs arbitrary: idx rule: gather.induct)
  case (1 n ns lo len ss xs)
  let ?m = "prod_list ns"
  let ?m' = "prod_list (sliced ns ss)"
  let ?f = "\<lambda>i. gather ns ss (take ?m (drop (i * ?m) xs))"
  from "1.prems" have fit: "lo + len \<le> n" "fits ns ss" and len: "length xs = n * ?m" by auto
  from "1.prems" obtain i js where idx: "idx = i # js" and i: "i < len"
    and js: "list_all2 (\<lambda>i n. i < n) js (sliced ns ss)"
    by (auto simp: list_all2_Cons2)
  have in_set: "lo + i \<in> set [lo..<lo + len]" using i by simp
  have lt: "lo + i < n" using i fit by simp
  have chunk: "length (take ?m (drop ((lo + i) * ?m) xs)) = ?m"
    using len lt by (rule chunk_length)
  have lens: "\<forall>k \<in> set [lo..<lo + len]. length (?f k) = ?m'"
  proof
    fix k assume k: "k \<in> set [lo..<lo + len]"
    with fit have "k < n" by auto
    with len have "length (take ?m (drop (k * ?m) xs)) = ?m" by (rule chunk_length)
    with fit(2) show "length (?f k) = ?m'" by (simp add: gather_length)
  qed
  have j: "flat_index (sliced ns ss) js < ?m'" using js by (rule flat_index_le)
  have off: "list_all2 (\<lambda>i n. i < n) (offset_index (map fst ss) js) ns"
    using fit(2) js by (rule offset_valid)
  then have j': "flat_index ns (offset_index (map fst ss) js) < ?m" by (rule flat_index_le)
  have "concat (map ?f [lo..<lo + len]) ! (i * ?m' + flat_index (sliced ns ss) js)
        = ?f ([lo..<lo + len] ! i) ! flat_index (sliced ns ss) js"
    using lens i j by (intro concat_const_nth) auto
  also have "\<dots> = ?f (lo + i) ! flat_index (sliced ns ss) js" using i by simp
  also have "\<dots> = take ?m (drop ((lo + i) * ?m) xs) ! flat_index ns (offset_index (map fst ss) js)"
    using "1.IH" [OF in_set fit(2) chunk js] .
  also have "\<dots> = xs ! ((lo + i) * ?m + flat_index ns (offset_index (map fst ss) js))"
    using len lt j' by (rule chunk_nth)
  finally show ?case using idx by simp
qed simp_all

lemma slice_indices_fits: "slice_indices sl n = (lo, len) \<Longrightarrow> lo + len \<le> n"
  by (auto simp: slice_indices_def adjust_index_def Let_def split: if_splits)

lemma slice_indices_start:
  "slice_indices sl n = (lo, len) \<Longrightarrow> 0 \<le> fst sl \<Longrightarrow> i < len \<Longrightarrow> lo = nat (fst sl)"
  by (auto simp: slice_indices_def adjust_index_def Let_def split: if_splits)

lemma slice_indices_inside:
  "0 \<le> s \<Longrightarrow> 0 \<le> c \<Longrightarrow> s + c \<le> int n \<Longrightarrow> slice_indices (s, s + c) n = (nat s, nat c)"
  by (auto simp: slice_indices_def adjust_index_def Let_def split: if_splits)

lemma selection_simps:
  "selection [] sh = []" "selection sls [] = []"
  "selection (sl # sls) (n # ns) = slice_indices sl n # selection sls ns"
  by (simp_all add: selection_def)

lemma length_selection: "length (selection sls sh) = min (length sls) (length sh)"
  by (simp add: selection_def)

lemma selection_fits: "length sls \<le> length sh \<Longrightarrow> fits sh (selection sls sh)"
proof (induction sls arbitrary: sh)
  case Nil
  then show ?case by (simp add: selection_simps)
next
  case (Cons sl sls)
  then obtain n ns where sh: "sh = n # ns" by (cases sh) auto
  obtain lo len where sl: "slice_indices sl n = (lo, len)" by (cases "slice_indices sl n")
  from Cons sh have "fits ns (selection sls ns)" by simp
  with sh sl show ?case by (simp add: slice_indices_fits selection_simps)
qed

lemma selection_offset:
  "length sls \<le> length sh \<Longrightarrow> \<forall>sl \<in> set sls. 0 \<le> fst sl \<Longrightarrow>
   list_all2 (\<lambda>i n. i < n) idx (sliced sh (selection sls sh)) \<Longrightarrow>
   offset_index (map fst (selection sls sh)) idx = offset_index (map (\<lambda>sl. nat (fst sl)) sls) idx"
proof (induction sls arbitrary: sh idx)
  case Nil
  then show ?case by (simp add: selection_simps)
next
  case (Cons sl sls)
  then obtain n ns where sh: "sh = n # ns" by (cases sh) auto
  obtain lo len where sl: "slice_indices sl n = (lo, len)" by (cases "slice_indices sl n")
  from Cons.prems sh sl obtain i js where idx: "idx = i # js" and i: "i < len"
    and js: "list_all2 (\<lambda>i n. i < n) js (sliced ns (selection sls ns))"
    by (auto simp: list_all2_Cons2 selection_simps)
  from sl i Cons.prems have lo: "lo = nat (fst sl)" by (auto dest: slice_indices_start)
  from Cons.prems sh have "offset_index (map fst (selection sls ns)) js = offset_index (map (\<lambda>sl. nat (fst sl)) sls) js"
    by (intro Cons.IH js) auto
  with sh sl idx lo show ?case by (simp add: selection_simps)
qed

lemma getitem_shape:
  "getitem X sls = Inr Y \<Longrightarrow> shape Y = sliced (shape X) (selection sls (shape X)) \<and> dtype Y = dtype X"
proof -
  assume get: "getitem X sls = Inr Y"
  then have len: "length sls \<le> length (shape X)"
    by (auto simp: getitem_def split: if_splits)
  then have "length (selection sls (shape X)) = length sls"
    by (simp add: length_selection)
  with sliced_eq [OF selection_fits [OF len]]
  have "map snd (selection sls (shape X)) @ drop (length sls) (shape X)
        = sliced (shape X) (selection sls (shape X))" by simp
  with get len show ?thesis by (auto simp: getitem_def Let_def)
qed

lemma getitem_well_formed:
  "getitem X sls = Inr Y \<Longrightarrow> well_formed X \<Longrightarrow> well_formed Y"
proof -
  assume get: "getitem X sls = Inr Y" and wf: "well_formed X"
  from get have len: "length sls \<le> length (shape X)"
    by (auto simp: getitem_def split: if_splits)
  then have fit: "fits (shape X) (selection sls (shape X))" by (rule selection_fits)
  from get len have "data Y = gather (shape X) (selection sls (shape X)) (data X)"
    by (auto simp: getitem_def Let_def)
  with fit wf getitem_shape [OF get] show ?thesis
    by (simp add: well_formed_def gather_length)
qed

lemma getitem_item:
  assumes wf: "well_formed X" and nonneg: "\<forall>sl \<in> set sls. 0 \<le> fst sl"
    and get: "getitem X sls = Inr Y" and it: "item Y idx = Inr v"
  shows "item X (offset_index (map (\<lambda>sl. nat (fst sl)) sls) idx) = Inr v"
proof -
  let ?sel = "selection sls (shape X)"
  from get have len: "length sls \<le> length (shape X)"
    by (auto simp: getitem_def split: if_splits)
  then have fit: "fits (shape X) ?sel" by (rule selection_fits)
  from get have shY: "shape Y = sliced (shape X) ?sel" by (simp add: getitem_shape)
  from get len have dY: "data Y = gather (shape X) ?sel (data X)"
    by (auto simp: getitem_def Let_def)
  from it shY have valid: "list_all2 (\<lambda>i n. i < n) idx (sliced (shape X) ?sel)"
    and v: "v = data Y ! flat_index (shape Y) idx"
    by (auto simp: item_def split: if_splits)
  have off: "offset_index (map fst ?sel) idx = offset_index (map (\<lambda>sl. nat (fst sl)) sls) idx"
    using len nonneg valid by (rule selection_offset)
  have valid': "list_all2 (\<lambda>i n. i < n) (offset_index (map fst ?sel) idx) (shape X)"
    using fit valid by (rule offset_valid)
  have "data Y ! flat_index (shape Y) idx = data X ! flat_index (shape X) (offset_index (map fst ?sel) idx)"
    unfolding dY shY using fit wf valid by (intro gather_nth) (auto simp: well_formed_def)
  with v valid' off show ?thesis by (simp add: item_def)
qed

section \<open>RandomCrop: construction and cropping\<close>

lemma RandomCrop_init_slices:
  assumes "RandomCrop_init array crop_size g = Inr (rc, g')"
  shows "\<exists>sts. draw_starts (zip (shape array) crop_size) g = Inr (sts, g') \<and>
           slices rc = map (\<lambda>(s, c). (s, s + c)) (zip sts crop_size)"
  using assms by (auto simp: RandomCrop_init_def split: sum.splits prod.splits)

text \<open>
  Claim C5. When the crop size exceeds the reference array's shape on some axis, the
  construction raises ValueError, whatever the generator's state: no instance is built.
\<close>

theorem RandomCrop_init_oversize:
  assumes "k < length (shape array)" and "k < length crop_size"
    and "int (shape array ! k) < crop_size ! k"
  shows "RandomCrop_init array crop_size g = Inl ValueError"
proof -
  let ?zs = "zip (shape array) crop_size"
  from assms have "?zs ! k \<in> set ?zs" by (intro nth_mem) simp
  moreover from assms have "?zs ! k = (shape array ! k, crop_size ! k)" by simp
  ultimately have "\<exists>(s, c) \<in> set ?zs. int s < c" using assms(3) by force
  then have "draw_starts ?zs g = Inl ValueError" by (rule draw_starts_oversize)
  then show ?thesis by (simp add: RandomCrop_init_def)
qed

text \<open>
  Claim C8. When the crop size is within the reference shape on every zipped axis, the
  construction succeeds, whatever the generator's state, and every stored slice starts
  at or after 0, spans the crop size and stops at or before the axis length. \<open>crop\<close>
  returns the instance as it was, so the slices stay what the construction made them.
\<close>

theorem RandomCrop_invariant:
  assumes "\<forall>k < min (length (shape array)) (length crop_size).
             crop_size ! k \<le> int (shape array ! k)"
  shows "\<exists>rc g'. RandomCrop_init array crop_size g = Inr (rc, g') \<and>
           length (slices rc) = min (length (shape array)) (length crop_size) \<and>
           (\<forall>k < length (slices rc).
              0 \<le> fst (slices rc ! k) \<and>
              snd (slices rc ! k) = fst (slices rc ! k) + crop_size ! k \<and>
              snd (slices rc ! k) \<le> int (shape array ! k)) \<and>
           (\<forall>X. fst (crop rc X) = rc)"
proof -
  let ?zs = "zip (shape array) crop_size"
  have "\<forall>(s, c) \<in> set ?zs. c \<le> int s"
  proof (clarify)
    fix s c assume "(s, c) \<in> set ?zs"
    then obtain k where "k < length ?zs" "?zs ! k = (s, c)" by (auto simp: in_set_conv_nth)
    with assms show "c \<le> int s" by auto
  qed
  then obtain sts g' where d: "draw_starts ?zs g = Inr (sts, g')"
    using draw_starts_ok by blast
  define rc where "rc = \<lparr>slices = map (\<lambda>(s, c). (s, s + c)) (zip sts crop_size)\<rparr>"
  from d have init: "RandomCrop_init array crop_size g = Inr (rc, g')"
    by (simp add: RandomCrop_init_def rc_def)
  from draw_starts_range [OF d] have len: "length sts = length ?zs"
    and rng: "\<forall>k < length ?zs. 0 \<le> sts ! k \<and> sts ! k + snd (?zs ! k) \<le> int (fst (?zs ! k))"
    by auto
  have l: "length (slices rc) = min (length (shape array)) (length crop_size)"
    using len by (simp add: rc_def)
  have inv: "\<forall>k < length (slices rc).
              0 \<le> fst (slices rc ! k) \<and>
              snd (slices rc ! k) = fst (slices rc ! k) + crop_size ! k \<and>
              snd (slices rc ! k) \<le> int (shape array ! k)"
  proof (intro allI impI)
    fix k assume k: "k < length (slices rc)"
    with l len have k': "k < length ?zs" "k < length sts" "k < length crop_size" by auto
    then have "slices rc ! k = (sts ! k, sts ! k + crop_size ! k)" by (simp add: rc_def)
    moreover from rng k' have "0 \<le> sts ! k \<and> sts ! k + crop_size ! k \<le> int (shape array ! k)"
      by auto
    ultimately show "0 \<le> fst (slices rc ! k) \<and>
              snd (slices rc ! k) = fst (slices rc ! k) + crop_size ! k \<and>
              snd (slices rc ! k) \<le> int (shape array ! k)" by simp
  qed
  have "\<forall>X. fst (crop rc X) = rc" by (simp add: crop_def)
  with init l inv show ?thesis by blast
qed

lemma crop_reference_slices:
  assumes sh: "shape ref = [10, 20, 30]"
    and init: "RandomCrop_init ref [5, 10, 15] g = Inr (rc, g')"
  shows "\<exists>s0 s1 s2. slices rc = [(s0, s0 + 5), (s1, s1 + 10), (s2, s2 + 15)] \<and>
           0 \<le> s0 \<and> s0 \<le> 5 \<and> 0 \<le> s1 \<and> s1 \<le> 10 \<and> 0 \<le> s2 \<and> s2 \<le> 15"
proof -
  from RandomCrop_init_slices [OF init] sh obtain sts where
    d: "draw_starts [(10, 5), (20, 10), (30, 15)] g = Inr (sts, g')" and
    sl: "slices rc = map (\<lambda>(s, c). (s, s + c)) (zip sts [5, 10, 15])"
    by auto
  from d obtain s0 s1 s2 g1 g2 where
    r0: "randint 0 5 g = Inr (s0, g1)" and r1: "randint 0 10 g1 = Inr (s1, g2)" and
    r2: "randint 0 15 g2 = Inr (s2, g')" and sts: "sts = [s0, s1, s2]"
    by (auto split: sum.splits prod.splits)
  from randint_range [OF r0] randint_range [OF r1] randint_range [OF r2]
  have "0 \<le> s0 \<and> s0 \<le> 5 \<and> 0 \<le> s1 \<and> s1 \<le> 10 \<and> 0 \<le> s2 \<and> s2 \<le> 15" by simp
  with sl sts show ?thesis by simp
qed

lemma crop_reference_shape:
  assumes sl: "slices rc = [(s0, s0 + 5), (s1, s1 + 10), (s2, s2 + 15)]"
    and b: "0 \<le> s0 \<and> s0 \<le> 5 \<and> 0 \<le> s1 \<and> s1 \<le> 10 \<and> 0 \<le> s2 \<and> s2 \<le> 15"
    and sh: "shape X = [10, 20, 30]"
  shows "\<exists>Y. crop rc X = (rc, Inr Y) \<and> shape Y = [5, 10, 15]"
proof -
  have "slice_indices (s0, s0 + 5) 10 = (nat s0, nat 5)"
    "slice_indices (s1, s1 + 10) 20 = (nat s1, nat 10)"
    "slice_indices (s2, s2 + 15) 30 = (nat s2, nat 15)"
    using b by (simp_all add: slice_indices_inside)
  then have "selection (slices rc) (shape X) = [(nat s0, 5), (nat s1, 10), (nat s2, 15)]"
    using sl sh by (simp add: selection_simps)
  then show ?thesis using sl sh by (simp add: crop_def getitem_def Let_def)
qed

lemma getitem_same_shape:
  "shape A = shape B \<Longrightarrow>
   (getitem A sls = Inl IndexError \<and> getitem B sls = Inl IndexError) \<or>
   (\<exists>CA CB. getitem A sls = Inr CA \<and> getitem B sls = Inr CB \<and> shape CA = shape CB)"
  by (simp add: getitem_def Let_def)

lemma crop_paired_items:
  assumes nonneg: "\<forall>sl \<in> set (slices rc). 0 \<le> fst sl"
    and ab: "shape A = shape B" "well_formed A" "well_formed B"
  shows "(crop rc A = (rc, Inl IndexError) \<and> crop rc B = (rc, Inl IndexError)) \<or>
          (\<exists>CA CB. crop rc A = (rc, Inr CA) \<and> crop rc B = (rc, Inr CB) \<and>
             shape CA = shape CB \<and>
             (\<forall>idx a. item CA idx = Inr a \<longrightarrow> item A (offset_index (starts rc) idx) = Inr a) \<and>
             (\<forall>idx b. item CB idx = Inr b \<longrightarrow> item B (offset_index (starts rc) idx) = Inr b))"
  using getitem_same_shape [OF ab(1), of "slices rc"]
proof
  assume "getitem A (slices rc) = Inl IndexError \<and> getitem B (slices rc) = Inl IndexError"
  then show ?thesis by (simp add: crop_def)
next
  assume "\<exists>CA CB. getitem A (slices rc) = Inr CA \<and> getitem B (slices rc) = Inr CB \<and> shape CA = shape CB"
  then obtain CA CB where ga: "getitem A (slices rc) = Inr CA"
    and gb: "getitem B (slices rc) = Inr CB" and s: "shape CA = shape CB" by blast
  have "\<forall>idx a. item CA idx = Inr a \<longrightarrow> item A (offset_index (starts rc) idx) = Inr a"
    unfolding starts_def using getitem_item [OF ab(2) nonneg ga] by blast
  moreover have "\<forall>idx b. item CB idx = Inr b \<longrightarrow> item B (offset_index (starts rc) idx) = Inr b"
    unfolding starts_def using getitem_item [OF ab(3) nonneg gb] by blast
  ultimately show ?thesis using ga gb s by (simp add: crop_def)
qed

text \<open>
  Claim C1. For an instance built from a reference array of shape (10, 20, 30) with crop
  size (5, 10, 15), whatever the draws: cropping any array of shape (10, 20, 30) gives an
  array of shape (5, 10, 15); and two arrays of one shape are cropped alike: both crops
  raise IndexError, or both succeed with equal shapes and every element of either crop is
  the element of its source array at the same index moved by the instance's start
  offsets. The instance is returned unchanged by each call.
\<close>

theorem RandomCrop_paired:
  assumes sh: "shape ref = [10, 20, 30]"
    and init: "RandomCrop_init ref [5, 10, 15] g = Inr (rc, g')"
  shows "(\<forall>X. shape X = [10, 20, 30] \<longrightarrow>
            (\<exists>Y. crop rc X = (rc, Inr Y) \<and> shape Y = [5, 10, 15])) \<and>
         (\<forall>A B. shape A = shape B \<and> well_formed A \<and> well_formed B \<longrightarrow>
            (crop rc A = (rc, Inl IndexError) \<and> crop rc B = (rc, Inl IndexError)) \<or>
            (\<exists>CA CB. crop rc A = (rc, Inr CA) \<and> crop rc B = (rc, Inr CB) \<and>
               shape CA = shape CB \<and>
               (\<forall>idx a. item CA idx = Inr a \<longrightarrow> item A (offset_index (starts rc) idx) = Inr a) \<and>
               (\<forall>idx b. item CB idx = Inr b \<longrightarrow> item B (offset_index (starts rc) idx) = Inr b)))"
proof -
  from crop_reference_slices [OF sh init] obtain s0 s1 s2 where
    sl: "slices rc = [(s0, s0 + 5), (s1, s1 + 10), (s2, s2 + 15)]" and
    b: "0 \<le> s0 \<and> s0 \<le> 5 \<and> 0 \<le> s1 \<and> s1 \<le> 10 \<and> 0 \<le> s2 \<and> s2 \<le> 15"
    by blast
  then have nonneg: "\<forall>sl \<in> set (slices rc). 0 \<le> fst sl" by simp
  have p1: "\<forall>X. shape X = [10, 20, 30] \<longrightarrow>
            (\<exists>Y. crop rc X = (rc, Inr Y) \<and> shape Y = [5, 10, 15])"
    by (intro allI impI) (rule crop_reference_shape [OF sl b])
  have p2: "\<forall>A B. shape A = shape B \<and> well_formed A \<and> well_formed B \<longrightarrow>
            (crop rc A = (rc, Inl IndexError) \<and> crop rc B = (rc, Inl IndexError)) \<or>
            (\<exists>CA CB. crop rc A = (rc, Inr CA) \<and> crop rc B = (rc, Inr CB) \<and>
               shape CA = shape CB \<and>
               (\<forall>idx a. item CA idx = Inr a \<longrightarrow> item A (offset_index (starts rc) idx) = Inr a) \<and>
               (\<forall>idx b. item CB idx = Inr b \<longrightarrow> item B (offset_index (starts rc) idx) = Inr b))"
    by (intro allI impI, elim conjE) (rule crop_paired_items [OF nonneg])
  from p1 p2 show ?thesis by (rule conjI)
qed

theorem RandomCrop_init_oversize_witness:
  "(0::nat) < length (shape \<lparr>dtype = (), shape = [2, 3], data = [1, 2, 3, 4, 5, 6 :: nat]\<rparr>) \<and>
   (0::nat) < length [5, 1 :: int] \<and>
   int (shape \<lparr>dtype = (), shape = [2, 3], data = [1, 2, 3, 4, 5, 6 :: nat]\<rparr> ! 0) < [5, 1] ! 0 \<and>
   RandomCrop_init \<lparr>dtype = (), shape = [2, 3], data = [1, 2, 3, 4, 5, 6 :: nat]\<rparr> [5, 1] (sconst 0)
     = Inl ValueError"
  using RandomCrop_init_oversize
    [of 0 "\<lparr>dtype = (), shape = [2, 3], data = [1, 2, 3, 4, 5, 6 :: nat]\<rparr>" "[5, 1]" "sconst 0"]
  by simp

theorem RandomCrop_invariant_witness:
  "[2, 3] ! 0 \<le> int (shape \<lparr>dtype = (), shape = [4, 6], data = replicate 24 (0::nat)\<rparr> ! 0) \<and>
   [2, 3] ! 1 \<le> int (shape \<lparr>dtype = (), shape = [4, 6], data = replicate 24 (0::nat)\<rparr> ! 1) \<and>
   (\<exists>rc g'. RandomCrop_init \<lparr>dtype = (), shape = [4, 6], data = replicate 24 (0::nat)\<rparr> [2, 3]
               (sconst 5) = Inr (rc, g') \<and>
      slices rc = [(2, 4), (1, 4)] \<and>
      fst (crop rc \<lparr>dtype = (), shape = [4, 6], data = replicate 24 (0::nat)\<rparr>) = rc)"
proof -
  let ?A = "\<lparr>dtype = (), shape = [4, 6], data = replicate 24 (0::nat)\<rparr>"
  have pre: "\<forall>k < min (length (shape ?A)) (length [2, 3 :: int]). [2, 3] ! k \<le> int (shape ?A ! k)"
    by (simp add: less_Suc_eq numeral_2_eq_2)
  from RandomCrop_invariant [OF pre, of "sconst 5"] obtain rc g' where
    i: "RandomCrop_init ?A [2, 3] (sconst 5) = Inr (rc, g')" and
    c: "\<forall>X :: (unit, nat) ndarray. fst (crop rc X) = rc"
    by blast
  from i have s: "slices rc = [(2, 4), (1, 4)]"
    by (auto simp: RandomCrop_init_def randint_def randrange_def randbelow_def)
  have "[2, 3] ! 0 \<le> int (shape ?A ! 0)" "[2, 3] ! 1 \<le> int (shape ?A ! 1)" by simp_all
  moreover have "\<exists>rc g'. RandomCrop_init ?A [2, 3] (sconst 5) = Inr (rc, g') \<and>
      slices rc = [(2, 4), (1, 4)] \<and> fst (crop rc ?A) = rc"
    using i s c by blast
  ultimately show ?thesis by (intro conjI)
qed

theorem RandomCrop_paired_witness:
  "shape \<lparr>dtype = (), shape = [10, 20, 30], data = replicate 6000 (0::nat)\<rparr> = [10, 20, 30] \<and>
   RandomCrop_init \<lparr>dtype = (), shape = [10, 20, 30], data = replicate 6000 (0::nat)\<rparr>
      [5, 10, 15] (sconst 7) = Inr (\<lparr>slices = [(1, 6), (7, 17), (7, 22)]\<rparr>, sconst 7) \<and>
   (\<exists>Y. crop \<lparr>slices = [(1, 6), (7, 17), (7, 22)]\<rparr>
            \<lparr>dtype = (), shape = [10, 20, 30], data = replicate 6000 (0::nat)\<rparr>
          = (\<lparr>slices = [(1, 6), (7, 17), (7, 22)]\<rparr>, Inr Y) \<and> shape Y = [5, 10, 15]) \<and>
   well_formed \<lparr>dtype = (), shape = [2, 8, 8], data = [0..<128]\<rparr> \<and>
   well_formed \<lparr>dtype = (), shape = [2, 8, 8], data = map (\<lambda>i. i + 1000) [0..<128]\<rparr> \<and>
   snd (crop \<lparr>slices = [(1, 6), (7, 17), (7, 22)]\<rparr>
          \<lparr>dtype = (), shape = [2, 8, 8], data = [0..<128]\<rparr>)
     = Inr \<lparr>dtype = (), shape = [1, 1, 1], data = [127]\<rparr> \<and>
   snd (crop \<lparr>slices = [(1, 6), (7, 17), (7, 22)]\<rparr>
          \<lparr>dtype = (), shape = [2, 8, 8], data = map (\<lambda>i. i + 1000) [0..<128]\<rparr>)
     = Inr \<lparr>dtype = (), shape = [1, 1, 1], data = [1127]\<rparr> \<and>
   item \<lparr>dtype = (), shape = [2, 8, 8], data = [0..<128]\<rparr> [1, 7, 7] = Inr 127 \<and>
   item \<lparr>dtype = (), shape = [2, 8, 8], data = map (\<lambda>i. i + 1000) [0..<128]\<rparr> [1, 7, 7] = Inr 1127"
proof -
  let ?R = "\<lparr>dtype = (), shape = [10, 20, 30], data = replicate 6000 (0::nat)\<rparr>"
  let ?rc = "\<lparr>slices = [(1, 6), (7, 17), (7, 22)]\<rparr>"
  let ?A = "\<lparr>dtype = (), shape = [2, 8, 8], data = [0..<128]\<rparr>"
  let ?B = "\<lparr>dtype = (), shape = [2, 8, 8], data = map (\<lambda>i. i + 1000) [0..<128]\<rparr>"
  let ?CA = "\<lparr>dtype = (), shape = [1, 1, 1], data = [127::nat]\<rparr>"
  let ?CB = "\<lparr>dtype = (), shape = [1, 1, 1], data = [1127::nat]\<rparr>"
  have sh: "shape ?R = [10, 20, 30]" by simp
  have init: "RandomCrop_init ?R [5, 10, 15] (sconst 7) = Inr (?rc, sconst 7)"
    by (simp add: RandomCrop_init_def randint_def randrange_def randbelow_def)
  note paired = RandomCrop_paired [OF sh init]
  from paired sh have p1: "\<exists>Y. crop ?rc ?R = (?rc, Inr Y) \<and> shape Y = [5, 10, 15]" by blast
  have wfA: "well_formed ?A" and wfB: "well_formed ?B" by (simp_all add: well_formed_def)
  have cA: "crop ?rc ?A = (?rc, Inr ?CA)"
    by (simp add: crop_def getitem_def selection_def slice_indices_def adjust_index_def)
  have cB: "crop ?rc ?B = (?rc, Inr ?CB)"
    by (simp add: crop_def getitem_def selection_def slice_indices_def adjust_index_def
        drop_map take_map)
  have iA: "item ?CA [0, 0, 0] = Inr 127" and iB: "item ?CB [0, 0, 0] = Inr 1127"
    by (simp_all add: item_def)
  have st: "offset_index (starts ?rc) [0, 0, 0] = [1, 7, 7]" by (simp add: starts_def)
  have pre: "shape ?A = shape ?B \<and> well_formed ?A \<and> well_formed ?B"
    using wfA wfB by simp
  from paired have
    "\<forall>(A :: (unit, nat) ndarray) (B :: (unit, nat) ndarray).
       shape A = shape B \<and> well_formed A \<and> well_formed B \<longrightarrow>
       (crop ?rc A = (?rc, Inl IndexError) \<and> crop ?rc B = (?rc, Inl IndexError)) \<or>
       (\<exists>CA CB. crop ?rc A = (?rc, Inr CA) \<and> crop ?rc B = (?rc, Inr CB) \<and>
          shape CA = shape CB \<and>
          (\<forall>idx a. item CA idx = Inr a \<longrightarrow> item A (offset_index (starts ?rc) idx) = Inr a) \<and>
          (\<forall>idx b. item CB idx = Inr b \<longrightarrow> item B (offset_index (starts ?rc) idx) = Inr b))"
    by (rule conjunct2)
  from this [rule_format, OF pre] obtain CA CB where
    "crop ?rc ?A = (?rc, Inr CA)" "crop ?rc ?B = (?rc, Inr CB)" and
    ia: "\<forall>idx a. item CA idx = Inr a \<longrightarrow> item ?A (offset_index (starts ?rc) idx) = Inr a" and
    ib: "\<forall>idx b. item CB idx = Inr b \<longrightarrow> item ?B (offset_index (starts ?rc) idx) = Inr b"
    unfolding cA cB by blast
  then have "CA = ?CA" "CB = ?CB" unfolding cA cB by simp_all
  with ia ib iA iB have "item ?A (offset_index (starts ?rc) [0, 0, 0]) = Inr 127"
    "item ?B (offset_index (starts ?rc) [0, 0, 0]) = Inr 1127" by blast+
  then have items: "item ?A [1, 7, 7] = Inr 127" "item ?B [1, 7, 7] = Inr 1127"
    unfolding st by simp_all
  have sA: "snd (crop ?rc ?A) = Inr ?CA" and sB: "snd (crop ?rc ?B) = Inr ?CB"
    unfolding cA cB by simp_all
  from sh init p1 wfA wfB sA sB items show ?thesis by (intro conjI)
qed

section \<open>Formats\<close>

lemma rounding_ok_mono: "rounding_ok r \<Longrightarrow> x \<le> y \<Longrightarrow> r x \<le> r y"
  by (simp add: rounding_ok_def)

lemma rounding_ok_idem: "rounding_ok r \<Longrightarrow> r (r x) = r x"
  by (simp add: rounding_ok_def)

lemma rounding_ok_int: "rounding_ok r \<Longrightarrow> \<bar>k\<bar> \<le> 2048 \<Longrightarrow> r (of_int k) = of_int k"
  by (simp add: rounding_ok_def)

lemma rounding_ok_0: "rounding_ok r \<Longrightarrow> r 0 = 0"
  using rounding_ok_int [of r 0] by simp

lemma rounding_ok_1: "rounding_ok r \<Longrightarrow> r 1 = 1"
  using rounding_ok_int [of r 1] by simp

lemma rounding_ok_255: "rounding_ok r \<Longrightarrow> r 255 = 255"
  using rounding_ok_int [of r 255] by simp

lemma rounding_ok_256: "rounding_ok r \<Longrightarrow> r 256 = 256"
  using rounding_ok_int [of r 256] by simp

lemma rounding_ok_diff:
  "rounding_ok r \<Longrightarrow> r x = x \<Longrightarrow> r y = y \<Longrightarrow> r (x - y) = 0 \<Longrightarrow> x = y"
  unfolding rounding_ok_def by blast

lemma rounding_ok_id: "rounding_ok (\<lambda>x. x)"
  by (simp add: rounding_ok_def)

lemma grid_fixed:
  "real_of_int \<lfloor>real_of_int k / 1024 * 1024 + 1 / 2\<rfloor> / 1024 = real_of_int k / 1024"
proof -
  have "\<lfloor>real_of_int k + 1 / 2\<rfloor> = k" by linarith
  then show ?thesis by simp
qed

lemma rounding_ok_grid: "rounding_ok (\<lambda>x. real_of_int \<lfloor>x * 1024 + 1 / 2\<rfloor> / 1024)"
  unfolding rounding_ok_def
proof (intro conjI allI impI)
  fix x y :: real assume "x \<le> y"
  then have "\<lfloor>x * 1024 + 1 / 2\<rfloor> \<le> \<lfloor>y * 1024 + 1 / 2\<rfloor>" by (intro floor_mono) simp
  then show "real_of_int \<lfloor>x * 1024 + 1 / 2\<rfloor> / 1024 \<le> real_of_int \<lfloor>y * 1024 + 1 / 2\<rfloor> / 1024"
    by simp
next
  fix x :: real
  show "real_of_int \<lfloor>real_of_int \<lfloor>x * 1024 + 1 / 2\<rfloor> / 1024 * 1024 + 1 / 2\<rfloor> / 1024
        = real_of_int \<lfloor>x * 1024 + 1 / 2\<rfloor> / 1024"
    by (rule grid_fixed)
next
  fix k :: int
  have "real_of_int \<lfloor>real_of_int (k * 1024) / 1024 * 1024 + 1 / 2\<rfloor> / 1024
        = real_of_int (k * 1024) / 1024"
    by (rule grid_fixed)
  then show "real_of_int \<lfloor>real_of_int k * 1024 + 1 / 2\<rfloor> / 1024 = real_of_int k" by simp
next
  fix x y :: real
  assume a: "real_of_int \<lfloor>x * 1024 + 1 / 2\<rfloor> / 1024 = x \<and>
             real_of_int \<lfloor>y * 1024 + 1 / 2\<rfloor> / 1024 = y \<and>
             real_of_int \<lfloor>(x - y) * 1024 + 1 / 2\<rfloor> / 1024 = 0"
  define i where "i = \<lfloor>x * 1024 + 1 / 2\<rfloor>"
  define j where "j = \<lfloor>y * 1024 + 1 / 2\<rfloor>"
  from a have x: "x = real_of_int i / 1024" and y: "y = real_of_int j / 1024"
    by (simp_all add: i_def j_def)
  have "x - y = real_of_int (i - j) / 1024" by (simp add: x y diff_divide_distrib)
  then have "real_of_int \<lfloor>(x - y) * 1024 + 1 / 2\<rfloor> / 1024 = x - y"
    by (simp only: grid_fixed)
  with a show "x = y" by simp
qed

lemma format_ok_rounding: "format_ok fm \<Longrightarrow> rounding_ok (rnd fm)"
  by (simp add: format_ok_def)

lemma format_ok_exact: "format_ok (exact d)"
  by (simp add: format_ok_def exact_def in_range_def rounding_ok_id)

lemma format_ok_bounded: "format_ok (bounded d)"
  by (cases d) (simp_all add: format_ok_def bounded_def in_range_def rounding_ok_id)

lemma format_ok_fixed_point: "format_ok (fixed_point d)"
  by (cases d) (simp_all add: format_ok_def fixed_point_def in_range_def rounding_ok_grid)

lemma in_range_le: "in_range fm b \<Longrightarrow> \<bar>a\<bar> \<le> \<bar>b\<bar> \<Longrightarrow> in_range fm a"
  by (auto simp: in_range_def split: option.splits)

lemma fround_in_range: "in_range fm (rnd fm x) \<Longrightarrow> fround fm x = Fin (rnd fm x)"
  by (simp add: fround_def)

lemma is_fin_fround: "is_fin (fround fm x) \<longleftrightarrow> in_range fm (rnd fm x)"
  by (simp add: fround_def Let_def)

lemma fround_Fin_iff: "fround fm x = Fin y \<longleftrightarrow> in_range fm (rnd fm x) \<and> rnd fm x = y"
  by (auto simp: fround_def Let_def)

lemma fround_between:
  assumes ok: "format_ok fm" and lo: "0 \<le> x" and hi: "x \<le> b" and b: "in_range fm (rnd fm b)"
  shows "fround fm x = Fin (rnd fm x)"
proof -
  note r = format_ok_rounding [OF ok]
  from lo have "rnd fm 0 \<le> rnd fm x" by (rule rounding_ok_mono [OF r])
  then have "0 \<le> rnd fm x" by (simp add: rounding_ok_0 [OF r])
  moreover from hi have "rnd fm x \<le> rnd fm b" by (rule rounding_ok_mono [OF r])
  ultimately have "\<bar>rnd fm x\<bar> \<le> \<bar>rnd fm b\<bar>" by simp
  with b have "in_range fm (rnd fm x)" by (rule in_range_le)
  then show ?thesis by (rule fround_in_range)
qed

lemma in_range_small:
  assumes ok: "format_ok fm" and "\<bar>y\<bar> \<le> 2048"
  shows "in_range fm y"
proof -
  from ok have "in_range fm 2048" by (simp add: format_ok_def)
  then show ?thesis by (rule in_range_le) (use assms in simp)
qed

lemma fround_int:
  assumes ok: "format_ok fm" and k: "\<bar>k\<bar> \<le> 2048"
  shows "fround fm (of_int k) = Fin (of_int k)"
proof -
  have r: "rnd fm (of_int k) = of_int k"
    using format_ok_rounding [OF ok] k by (rule rounding_ok_int)
  have "\<bar>real_of_int k\<bar> \<le> 2048" using k by linarith
  with ok have "in_range fm (of_int k)" by (rule in_range_small)
  then show ?thesis using r by (simp add: fround_def)
qed

lemma fround_unit:
  assumes ok: "format_ok fm" and lo: "0 \<le> x" and hi: "x \<le> 1"
  shows "fround fm x = Fin (rnd fm x)"
proof -
  have "rnd fm 1 = 1" using format_ok_rounding [OF ok] by (rule rounding_ok_1)
  moreover have "in_range fm 1" using ok by (rule in_range_small) simp
  ultimately have "in_range fm (rnd fm 1)" by simp
  with ok lo hi show ?thesis by (rule fround_between)
qed

section \<open>Reductions of finite values\<close>

lemma finites_map_Fin: "finites (map Fin xs) = xs"
  by (induction xs) simp_all

lemma special_not_in_map_Fin:
  "NaN \<notin> set (map Fin xs)" "PInf \<notin> set (map Fin xs)" "NInf \<notin> set (map Fin xs)"
  by auto

lemma foldl_fminimum_Fin:
  "foldl fminimum (Fin a) (map Fin xs) = Fin (Min (set (a # xs)))"
proof (induction xs arbitrary: a)
  case Nil
  show ?case by simp
next
  case (Cons x xs)
  have "fminimum (Fin a) (Fin x) = Fin (min a x)"
    by (simp add: fminimum_def min_def)
  then have "foldl fminimum (Fin a) (map Fin (x # xs)) = Fin (Min (set (min a x # xs)))"
    using Cons.IH [of "min a x"] by simp
  also have "Min (set (min a x # xs)) = Min (set (a # x # xs))"
    by (cases "xs = []") (simp_all add: min.assoc)
  finally show ?case .
qed

lemma foldl_fmaximum_Fin:
  "foldl fmaximum (Fin a) (map Fin xs) = Fin (Max (set (a # xs)))"
proof (induction xs arbitrary: a)
  case Nil
  show ?case by simp
next
  case (Cons x xs)
  have "fmaximum (Fin a) (Fin x) = Fin (max a x)"
    by (simp add: fmaximum_def max_def)
  then have "foldl fmaximum (Fin a) (map Fin (x # xs)) = Fin (Max (set (max a x # xs)))"
    using Cons.IH [of "max a x"] by simp
  also have "Max (set (max a x # xs)) = Max (set (a # x # xs))"
    by (cases "xs = []") (simp_all add: max.assoc)
  finally show ?case .
qed

lemma np_min_Fin:
  assumes "data a = map Fin xs" and "xs \<noteq> []"
  shows "np_min a = Inr (Fin (Min (set xs)))"
proof -
  from assms obtain y ys where xs: "xs = y # ys" by (cases xs) auto
  show ?thesis using assms(1) by (simp add: np_min_def xs foldl_fminimum_Fin)
qed

lemma np_max_Fin:
  assumes "data a = map Fin xs" and "xs \<noteq> []"
  shows "np_max a = Inr (Fin (Max (set xs)))"
proof -
  from assms obtain y ys where xs: "xs = y # ys" by (cases xs) auto
  show ?thesis using assms(1) by (simp add: np_max_def xs foldl_fmaximum_Fin)
qed

section \<open>Normalizer: min-max normalisation\<close>

lemma shifted_nonneg:
  assumes ok: "rounding_ok r" and y: "y \<in> set (map (\<lambda>x. r (x - Min (set xs))) xs)"
  shows "0 \<le> y"
proof -
  from y obtain x where x: "x \<in> set xs" and yx: "y = r (x - Min (set xs))" by auto
  from x have "Min (set xs) \<le> x" by simp
  then have "r 0 \<le> r (x - Min (set xs))" by (intro rounding_ok_mono [OF ok]) simp
  with yx ok show ?thesis by (simp add: rounding_ok_0)
qed

lemma shifted_has_zero:
  assumes ok: "rounding_ok r" and ne: "xs \<noteq> []"
  shows "0 \<in> set (map (\<lambda>x. r (x - Min (set xs))) xs)"
proof -
  from ne have "Min (set xs) \<in> set xs" by (intro Min_in) simp_all
  then have "r (Min (set xs) - Min (set xs)) \<in> (\<lambda>x. r (x - Min (set xs))) ` set xs"
    by (rule imageI)
  with ok show ?thesis by (simp add: rounding_ok_0)
qed

lemma Min_eq_0:
  assumes "\<forall>y \<in> set ys. (0::real) \<le> y" and "0 \<in> set ys"
  shows "Min (set ys) = 0"
  using assms by (intro Min_eqI) auto

lemma scaled_bounds:
  assumes ok: "rounding_ok r" and nn: "\<forall>y \<in> set ys. 0 \<le> y" and mx: "0 < Max (set ys)"
    and z: "z \<in> set (map (\<lambda>y. r (y / Max (set ys))) ys)"
  shows "0 \<le> z \<and> z \<le> 1"
proof -
  from z obtain y where y: "y \<in> set ys" and zy: "z = r (y / Max (set ys))" by auto
  from y nn have y0: "0 \<le> y" by simp
  from y have yle: "y \<le> Max (set ys)" by simp
  have "0 \<le> y / Max (set ys)" using y0 mx by simp
  then have "r 0 \<le> z" unfolding zy by (rule rounding_ok_mono [OF ok])
  moreover have "y / Max (set ys) \<le> 1" using yle mx by simp
  then have "z \<le> r 1" unfolding zy by (rule rounding_ok_mono [OF ok])
  ultimately show ?thesis using ok by (simp add: rounding_ok_0 rounding_ok_1)
qed

lemma scaled_has_zero:
  assumes ok: "rounding_ok r" and z: "0 \<in> set ys"
  shows "0 \<in> set (map (\<lambda>y. r (y / m)) ys)"
proof -
  have "r (0 / m) \<in> (\<lambda>y. r (y / m)) ` set ys" using z by (rule imageI)
  with ok show ?thesis by (simp add: rounding_ok_0)
qed

lemma scaled_has_one:
  assumes ok: "rounding_ok r" and ne: "ys \<noteq> []" and mx: "0 < Max (set ys)"
  shows "1 \<in> set (map (\<lambda>y. r (y / Max (set ys))) ys)"
proof -
  from ne have "Max (set ys) \<in> set ys" by (intro Max_in) simp_all
  then have "r (Max (set ys) / Max (set ys)) \<in> (\<lambda>y. r (y / Max (set ys))) ` set ys"
    by (rule imageI)
  with ok mx show ?thesis by (simp add: rounding_ok_1)
qed

lemma Max_eq_1:
  assumes "\<forall>z \<in> set zs. z \<le> (1::real)" and "1 \<in> set zs"
  shows "Max (set zs) = 1"
  using assms by (intro Max_eqI) auto

lemma shifted_facts:
  assumes ok: "rounding_ok r" and ne: "xs \<noteq> []"
  shows "\<forall>y \<in> set (shifted r xs). 0 \<le> y" and "0 \<in> set (shifted r xs)"
    and "Min (set (shifted r xs)) = 0" and "shifted r xs \<noteq> []"
proof -
  show a: "\<forall>y \<in> set (shifted r xs). 0 \<le> y"
    unfolding shifted_def using shifted_nonneg [OF ok] by blast
  show b: "0 \<in> set (shifted r xs)"
    unfolding shifted_def using ok ne by (rule shifted_has_zero)
  from a b show "Min (set (shifted r xs)) = 0" by (rule Min_eq_0)
  from ne show "shifted r xs \<noteq> []" by (simp add: shifted_def)
qed

lemma scaled_facts:
  assumes ok: "rounding_ok r" and ne: "ys \<noteq> []" and nn: "\<forall>y \<in> set ys. 0 \<le> y"
    and z: "0 \<in> set ys" and mx: "0 < Max (set ys)"
  shows "Min (set (scaled r ys)) = 0" and "Max (set (scaled r ys)) = 1"
    and "\<forall>z \<in> set (scaled r ys). r z = z"
    and "\<forall>z \<in> set (scaled r ys). 0 \<le> z \<and> z \<le> 1"
proof -
  show b: "\<forall>z \<in> set (scaled r ys). 0 \<le> z \<and> z \<le> 1"
    unfolding scaled_def using scaled_bounds [OF ok nn mx] by blast
  have z0: "0 \<in> set (scaled r ys)" unfolding scaled_def using ok z by (rule scaled_has_zero)
  have z1: "1 \<in> set (scaled r ys)" unfolding scaled_def using ok ne mx by (rule scaled_has_one)
  from b z0 show "Min (set (scaled r ys)) = 0" by (intro Min_eq_0) auto
  from b z1 show "Max (set (scaled r ys)) = 1" by (intro Max_eq_1) auto
  show "\<forall>z \<in> set (scaled r ys). r z = z"
    unfolding scaled_def using ok by (auto simp: rounding_ok_idem)
qed

lemma shifted_fixed:
  assumes ok: "rounding_ok r" and m: "Min (set zs) = 0" and f: "\<forall>z \<in> set zs. r z = z"
  shows "shifted r zs = zs"
  unfolding shifted_def m using f by (simp add: map_idI)

lemma scaled_fixed:
  assumes m: "Max (set zs) = 1" and f: "\<forall>z \<in> set zs. r z = z"
  shows "scaled r zs = zs"
  unfolding scaled_def m using f by (simp add: map_idI)

lemma all_zero:
  assumes nn: "\<forall>y \<in> set ys. (0::real) \<le> y" and mx: "\<not> 0 < Max (set ys)" and ne: "ys \<noteq> []"
  shows "\<forall>y \<in> set ys. y = 0"
proof
  fix y assume y: "y \<in> set ys"
  then have "y \<le> Max (set ys)" by simp
  moreover from nn y have "0 \<le> y" by blast
  ultimately show "y = 0" using mx by linarith
qed

lemma zero_one_data_fixed:
  assumes ok: "rounding_ok r" and ne: "xs \<noteq> []"
  defines "D \<equiv> (if 0 < Max (set (shifted r xs)) then scaled r (shifted r xs) else shifted r xs)"
  shows "(if 0 < Max (set (shifted r D)) then scaled r (shifted r D) else shifted r D) = D"
    and "D \<noteq> []"
    and "\<forall>z \<in> set D. 0 \<le> z \<and> z \<le> 1"
proof -
  note sf = shifted_facts [OF ok ne]
  show ne': "D \<noteq> []" using sf(4) by (simp add: D_def scaled_def)
  show "(if 0 < Max (set (shifted r D)) then scaled r (shifted r D) else shifted r D) = D"
  proof (cases "0 < Max (set (shifted r xs))")
    case True
    then have D: "D = scaled r (shifted r xs)" by (simp add: D_def)
    note sc = scaled_facts [OF ok sf(4) sf(1) sf(2) True]
    have s: "shifted r D = D" unfolding D using ok sc(1) sc(3) by (rule shifted_fixed)
    have "scaled r D = D" unfolding D using sc(2) sc(3) by (rule scaled_fixed)
    with s sc(2) D show ?thesis by simp
  next
    case False
    then have D: "D = shifted r xs" by (simp add: D_def)
    from all_zero [OF sf(1) False sf(4)] have z: "\<forall>y \<in> set (shifted r xs). y = 0" .
    have f: "\<forall>y \<in> set (shifted r xs). r y = y"
    proof
      fix y assume "y \<in> set (shifted r xs)"
      with z have "y = 0" by blast
      then show "r y = y" using rounding_ok_0 [OF ok] by simp
    qed
    have s: "shifted r D = D" unfolding D using ok sf(3) f by (rule shifted_fixed)
    with False D show ?thesis by simp
  qed
  show "\<forall>z \<in> set D. 0 \<le> z \<and> z \<le> 1"
  proof (cases "0 < Max (set (shifted r xs))")
    case True
    then have D: "D = scaled r (shifted r xs)" by (simp add: D_def)
    show ?thesis unfolding D by (rule scaled_facts(4) [OF ok sf(4) sf(1) sf(2) True])
  next
    case False
    then have D: "D = shifted r xs" by (simp add: D_def)
    from all_zero [OF sf(1) False sf(4)] show ?thesis unfolding D by auto
  qed
qed

lemma zero_one_empty:
  "data im = [] \<Longrightarrow> normalize_image_zero_one fl im = Inl ValueError"
  by (simp add: normalize_image_zero_one_def np_min_def)

text \<open>
  The subtraction of the minimum from an array of finite values, when the largest
  difference is within the range of the format.
\<close>

lemma subtract_min_finite:
  assumes ok: "format_ok (fl (dtype im))" and fin: "data im = map Fin xs" and ne: "xs \<noteq> []"
    and span: "is_fin (fround (fl (dtype im)) (Max (set xs) - Min (set xs)))"
  shows "subtract fl im (Fin (Min (set xs)))
         = im\<lparr>data := map Fin (shifted (rnd (fl (dtype im))) xs)\<rparr>"
proof -
  let ?fm = "fl (dtype im)"
  from span have b: "in_range ?fm (rnd ?fm (Max (set xs) - Min (set xs)))"
    by (simp add: is_fin_fround)
  have "fround ?fm (x - Min (set xs)) = Fin (rnd ?fm (x - Min (set xs)))"
    if "x \<in> set xs" for x
  proof (rule fround_between [OF ok _ _ b])
    from that show "0 \<le> x - Min (set xs)" by simp
    from that show "x - Min (set xs) \<le> Max (set xs) - Min (set xs)" by simp
  qed
  then show ?thesis by (simp add: subtract_def fin shifted_def)
qed

lemma divide_max_finite:
  assumes ok: "format_ok (fl (dtype a))" and fin: "data a = map Fin ys"
    and nn: "\<forall>y \<in> set ys. 0 \<le> y" and mx: "0 < Max (set ys)"
  shows "true_divide fl a (Fin (Max (set ys)))
         = a\<lparr>data := map Fin (scaled (rnd (fl (dtype a))) ys)\<rparr>"
proof -
  let ?fm = "fl (dtype a)"
  have "fround ?fm (y / Max (set ys)) = Fin (rnd ?fm (y / Max (set ys)))"
    if "y \<in> set ys" for y
  proof (rule fround_unit [OF ok])
    from that nn mx show "0 \<le> y / Max (set ys)" by simp
    from that have "y \<le> Max (set ys)" by simp
    with mx show "y / Max (set ys) \<le> 1" by simp
  qed
  with mx show ?thesis by (simp add: true_divide_def fin scaled_def)
qed

lemma zero_one_finite:
  assumes ok: "format_ok (fl (dtype im))" and fin: "data im = map Fin xs" and ne: "xs \<noteq> []"
    and span: "is_fin (fround (fl (dtype im)) (Max (set xs) - Min (set xs)))"
  shows "normalize_image_zero_one fl im =
         Inr (im\<lparr>data := map Fin
                    (if 0 < Max (set (shifted (rnd (fl (dtype im))) xs))
                     then scaled (rnd (fl (dtype im))) (shifted (rnd (fl (dtype im))) xs)
                     else shifted (rnd (fl (dtype im))) xs)\<rparr>)"
proof -
  let ?r = "rnd (fl (dtype im))"
  let ?im1 = "im\<lparr>data := map Fin (shifted ?r xs)\<rparr>"
  note r = format_ok_rounding [OF ok]
  note sf = shifted_facts [OF r ne]
  have mn: "np_min im = Inr (Fin (Min (set xs)))" using fin ne by (rule np_min_Fin)
  have sub: "subtract fl im (Fin (Min (set xs))) = ?im1"
    using ok fin ne span by (rule subtract_min_finite)
  have mx: "np_max ?im1 = Inr (Fin (Max (set (shifted ?r xs))))"
    by (rule np_max_Fin) (simp_all add: sf(4))
  have dv: "true_divide fl ?im1 (Fin (Max (set (shifted ?r xs))))
            = ?im1\<lparr>data := map Fin (scaled ?r (shifted ?r xs))\<rparr>"
    if "0 < Max (set (shifted ?r xs))"
    using divide_max_finite [of fl ?im1 "shifted ?r xs"] ok sf(1) that by simp
  show ?thesis
    by (simp add: normalize_image_zero_one_def mn sub mx dv)
qed

text \<open>
  Claim C9, as amended. On an array of finite values whose largest difference
  \<open>max - min\<close> does not overflow in the format of the array,
  \<open>normalize_image_zero_one\<close> is idempotent: applied to its own result it returns that
  result again (and on a zero-size array, where it raises, the composition raises the
  same exception).
\<close>

theorem zero_one_idempotent:
  assumes ok: "format_ok (fl (dtype im))" and fin: "data im = map Fin xs"
    and span: "is_fin (fround (fl (dtype im)) (Max (set xs) - Min (set xs)))"
  shows "(case normalize_image_zero_one fl im of
            Inl e \<Rightarrow> Inl e
          | Inr r \<Rightarrow> normalize_image_zero_one fl r)
         = normalize_image_zero_one fl im"
proof (cases "xs = []")
  case True
  with fin show ?thesis by (simp add: zero_one_empty)
next
  case False
  let ?r = "rnd (fl (dtype im))"
  define D where "D = (if 0 < Max (set (shifted ?r xs))
            then scaled ?r (shifted ?r xs) else shifted ?r xs)"
  define out where "out = im\<lparr>data := map Fin D\<rparr>"
  note r = format_ok_rounding [OF ok]
  have z1: "normalize_image_zero_one fl im = Inr out"
    unfolding out_def D_def using ok fin False span by (rule zero_one_finite)
  have sel: "dtype out = dtype im" "data out = map Fin D" by (simp_all add: out_def)
  have ne: "D \<noteq> []" unfolding D_def using r False by (rule zero_one_data_fixed(2))
  have unit: "\<forall>z \<in> set D. 0 \<le> z \<and> z \<le> 1"
    unfolding D_def using r False by (rule zero_one_data_fixed(3))
  have fixed: "(if 0 < Max (set (shifted ?r D)) then scaled ?r (shifted ?r D)
                else shifted ?r D) = D"
    unfolding D_def using r False by (rule zero_one_data_fixed(1))
  have same: "out\<lparr>data := map Fin D\<rparr> = out" by (simp add: out_def)
  have lo: "0 \<le> Max (set D) - Min (set D)" using ne by simp
  have "Max (set D) \<in> set D" "Min (set D) \<in> set D" using ne by simp_all
  with unit have "Max (set D) \<le> 1" "0 \<le> Min (set D)" by blast+
  then have hi: "Max (set D) - Min (set D) \<le> 1" by simp
  have "fround (fl (dtype im)) (Max (set D) - Min (set D))
        = Fin (?r (Max (set D) - Min (set D)))"
    using ok lo hi by (rule fround_unit)
  then have span': "is_fin (fround (fl (dtype out)) (Max (set D) - Min (set D)))"
    by (simp add: sel)
  have ok': "format_ok (fl (dtype out))" using ok by (simp add: sel)
  have "normalize_image_zero_one fl out =
        Inr (out\<lparr>data := map Fin
                    (if 0 < Max (set (shifted (rnd (fl (dtype out))) D))
                     then scaled (rnd (fl (dtype out))) (shifted (rnd (fl (dtype out))) D)
                     else shifted (rnd (fl (dtype out))) D)\<rparr>)"
    using ok' sel(2) ne span' by (rule zero_one_finite)
  then have "normalize_image_zero_one fl out = Inr out"
    by (simp only: sel fixed same)
  with z1 show ?thesis by simp
qed

lemma nonconstant_shifted_pos:
  assumes ok: "rounding_ok r" and rep: "\<forall>x \<in> set xs. r x = x"
    and nc: "\<exists>x \<in> set xs. \<exists>y \<in> set xs. x \<noteq> y"
  shows "0 < Max (set (shifted r xs))"
proof -
  from nc have ne: "xs \<noteq> []" by auto
  then have m: "Min (set xs) \<in> set xs" by (intro Min_in) simp_all
  from nc obtain x where x: "x \<in> set xs" and xm: "x \<noteq> Min (set xs)" by metis
  from rep x m have "r x = x" "r (Min (set xs)) = Min (set xs)" by auto
  with xm ok have nz: "r (x - Min (set xs)) \<noteq> 0" using rounding_ok_diff by blast
  have mem: "r (x - Min (set xs)) \<in> set (shifted r xs)"
    unfolding shifted_def using x by auto
  with shifted_facts(1) [OF ok ne] have "0 \<le> r (x - Min (set xs))" by blast
  with nz have "0 < r (x - Min (set xs))" by simp
  also from mem have "\<dots> \<le> Max (set (shifted r xs))" by simp
  finally show ?thesis .
qed

lemma constant_shifted_zero:
  assumes ok: "rounding_ok r" and c: "\<forall>x \<in> set xs. \<forall>y \<in> set xs. x = y" and ne: "xs \<noteq> []"
  shows "shifted r xs = map (\<lambda>x. 0) xs"
proof -
  from ne have m: "Min (set xs) \<in> set xs" by (intro Min_in) simp_all
  with c have "\<forall>x \<in> set xs. x = Min (set xs)" by blast
  then show ?thesis unfolding shifted_def using ok by (simp add: rounding_ok_0)
qed

lemma constant_span:
  assumes c: "\<forall>x \<in> set xs. \<forall>y \<in> set xs. x = y" and ne: "xs \<noteq> []"
  shows "Max (set xs) - Min (set xs) = (0::real)"
proof -
  from ne have "Min (set xs) \<in> set xs" "Max (set xs) \<in> set xs" by simp_all
  with c show ?thesis by simp
qed

text \<open>
  Claim C4, as amended. For an array of finite values of its format that is not constant
  and whose largest difference \<open>max - min\<close> does not overflow in the format,
  \<open>normalize_image_zero_one\<close> returns an array of the same shape whose minimum is
  exactly 0 and whose maximum is exactly 1; for a constant array of finite values that
  is not empty it returns the all-zero array of the same shape.
\<close>

theorem zero_one_range:
  assumes ok: "format_ok (fl (dtype im))" and fin: "data im = map Fin xs"
    and rep: "representable fl im"
  shows "(\<not> is_constant im \<and>
          is_fin (fround (fl (dtype im)) (Max (set xs) - Min (set xs))) \<longrightarrow>
            (\<exists>r. normalize_image_zero_one fl im = Inr r \<and>
                 shape r = shape im \<and> dtype r = dtype im \<and>
                 length (data r) = length (data im) \<and>
                 np_min r = Inr (Fin 0) \<and> np_max r = Inr (Fin 1))) \<and>
         (is_constant im \<and> data im \<noteq> [] \<longrightarrow>
            normalize_image_zero_one fl im = Inr (zeros_like im))"
proof (intro conjI impI)
  let ?r = "rnd (fl (dtype im))"
  let ?ys = "shifted ?r xs"
  note r = format_ok_rounding [OF ok]
  have inj: "inj Fin" by (simp add: inj_def)
  {
    assume a: "\<not> is_constant im \<and>
               is_fin (fround (fl (dtype im)) (Max (set xs) - Min (set xs)))"
    then have nc: "\<exists>x \<in> set xs. \<exists>y \<in> set xs. x \<noteq> y"
      by (auto simp: is_constant_def fin)
    then have ne: "xs \<noteq> []" by auto
    from rep have rep': "\<forall>x \<in> set xs. ?r x = x"
      by (simp add: representable_def fin finites_map_Fin fround_Fin_iff)
    have pos: "0 < Max (set ?ys)" using r rep' nc by (rule nonconstant_shifted_pos)
    note sf = shifted_facts [OF r ne]
    note sc = scaled_facts [OF r sf(4) sf(1) sf(2) pos]
    define out where "out = im\<lparr>data := map Fin (scaled ?r ?ys)\<rparr>"
    have z: "normalize_image_zero_one fl im = Inr out"
      using zero_one_finite [of fl im xs, OF ok fin ne] a pos by (simp add: out_def)
    have d: "data out = map Fin (scaled ?r ?ys)" by (simp add: out_def)
    have ne': "scaled ?r ?ys \<noteq> []" using sf(4) by (simp add: scaled_def)
    have "np_min out = Inr (Fin 0)" using np_min_Fin [OF d ne'] sc(1) by simp
    moreover have "np_max out = Inr (Fin 1)" using np_max_Fin [OF d ne'] sc(2) by simp
    moreover have "length (data out) = length (data im)"
      by (simp add: out_def fin scaled_def shifted_def)
    moreover have "shape out = shape im" "dtype out = dtype im" by (simp_all add: out_def)
    ultimately show "\<exists>r. normalize_image_zero_one fl im = Inr r \<and>
                 shape r = shape im \<and> dtype r = dtype im \<and>
                 length (data r) = length (data im) \<and>
                 np_min r = Inr (Fin 0) \<and> np_max r = Inr (Fin 1)"
      using z by blast
  }
  {
    assume "is_constant im \<and> data im \<noteq> []"
    then have c: "\<forall>x \<in> set xs. \<forall>y \<in> set xs. x = y" and ne: "xs \<noteq> []"
      by (auto simp: is_constant_def fin)
    have "Max (set xs) - Min (set xs) = 0" using c ne by (rule constant_span)
    moreover have "fround (fl (dtype im)) 0 = Fin 0" using fround_int [OF ok, of 0] by simp
    ultimately have span: "is_fin (fround (fl (dtype im)) (Max (set xs) - Min (set xs)))"
      by simp
    have z: "?ys = map (\<lambda>x. 0) xs" using r c ne by (rule constant_shifted_zero)
    moreover have "set (map (\<lambda>x. 0::real) xs) = {0}" using ne by (cases xs) auto
    ultimately have "\<not> 0 < Max (set ?ys)" by simp
    with zero_one_finite [of fl im xs, OF ok fin ne span] z
    show "normalize_image_zero_one fl im = Inr (zeros_like im)"
      by (simp add: zeros_like_def fin comp_def)
  }
qed

theorem zero_one_idempotent_witness:
  "format_ok (fixed_point (dtype \<lparr>dtype = Float64, shape = [3], data = map Fin [1, 2, 4]\<rparr>)) \<and>
   is_fin (fround (fixed_point Float64) (Max (set [1, 2, 4]) - Min (set [1, 2, 4]))) \<and>
   normalize_image_zero_one fixed_point \<lparr>dtype = Float64, shape = [3], data = map Fin [1, 2, 4]\<rparr>
     = Inr \<lparr>dtype = Float64, shape = [3], data = [Fin 0, Fin (341 / 1024), Fin 1]\<rparr> \<and>
   normalize_image_zero_one fixed_point
       \<lparr>dtype = Float64, shape = [3], data = [Fin 0, Fin (341 / 1024), Fin 1]\<rparr>
     = Inr \<lparr>dtype = Float64, shape = [3], data = [Fin 0, Fin (341 / 1024), Fin 1]\<rparr>"
proof -
  let ?A = "\<lparr>dtype = Float64, shape = [3], data = map Fin [1, 2, 4]\<rparr>"
  let ?B = "\<lparr>dtype = Float64, shape = [3], data = [Fin 0, Fin (341 / 1024), Fin 1]\<rparr>"
  have ok: "format_ok (fixed_point (dtype ?A))" by (rule format_ok_fixed_point)
  have fin: "data ?A = map Fin [1, 2, 4]" by simp
  have span: "is_fin (fround (fixed_point Float64) (Max (set [1, 2, 4]) - Min (set [1, 2, 4])))"
    by (simp add: fround_def fixed_point_def in_range_def)
  then have span': "is_fin (fround (fixed_point (dtype ?A)) (Max (set [1, 2, 4]) - Min (set [1, 2, 4])))"
    by simp
  have a: "normalize_image_zero_one fixed_point ?A = Inr ?B"
    by (simp add: normalize_image_zero_one_def np_min_def np_max_def subtract_def
        true_divide_def fixed_point_def fround_def in_range_def fminimum_def fmaximum_def)
  from zero_one_idempotent [of fixed_point ?A "[1, 2, 4]", OF ok fin span']
  have "normalize_image_zero_one fixed_point ?B = Inr ?B"
    unfolding a by simp
  with ok span a show ?thesis by (intro conjI)
qed

theorem zero_one_range_witness:
  "format_ok (bounded (dtype \<lparr>dtype = Float64, shape = [3], data = map Fin [2, 4, 3]\<rparr>)) \<and>
   representable bounded \<lparr>dtype = Float64, shape = [3], data = map Fin [2, 4, 3]\<rparr> \<and>
   \<not> is_constant \<lparr>dtype = Float64, shape = [3], data = map Fin [2, 4, 3]\<rparr> \<and>
   is_fin (fround (bounded Float64) (Max (set [2, 4, 3]) - Min (set [2, 4, 3]))) \<and>
   (\<exists>r. normalize_image_zero_one bounded \<lparr>dtype = Float64, shape = [3], data = map Fin [2, 4, 3]\<rparr>
           = Inr r \<and>
        shape r = [3] \<and> np_min r = Inr (Fin 0) \<and> np_max r = Inr (Fin 1)) \<and>
   format_ok (bounded (dtype \<lparr>dtype = Float32, shape = [2], data = map Fin [5, 5]\<rparr>)) \<and>
   representable bounded \<lparr>dtype = Float32, shape = [2], data = map Fin [5, 5]\<rparr> \<and>
   is_constant \<lparr>dtype = Float32, shape = [2], data = map Fin [5, 5]\<rparr> \<and>
   normalize_image_zero_one bounded \<lparr>dtype = Float32, shape = [2], data = map Fin [5, 5]\<rparr>
     = Inr \<lparr>dtype = Float32, shape = [2], data = [Fin 0, Fin 0]\<rparr>"
proof -
  let ?A = "\<lparr>dtype = Float64, shape = [3], data = map Fin [2, 4, 3]\<rparr>"
  let ?C = "\<lparr>dtype = Float32, shape = [2], data = map Fin [5, 5]\<rparr>"
  have okA: "format_ok (bounded (dtype ?A))" and okC: "format_ok (bounded (dtype ?C))"
    by (rule format_ok_bounded)+
  have finA: "data ?A = map Fin [2, 4, 3]" and finC: "data ?C = map Fin [5, 5]" by simp_all
  have repA: "representable bounded ?A" and repC: "representable bounded ?C"
    by (simp_all add: representable_def bounded_def fround_def in_range_def)
  have ncA: "\<not> is_constant ?A" by (simp add: is_constant_def)
  have cC: "is_constant ?C" by (simp add: is_constant_def)
  have spanA: "is_fin (fround (bounded Float64) (Max (set [2, 4, 3]) - Min (set [2, 4, 3])))"
    by (simp add: bounded_def fround_def in_range_def)
  from zero_one_range [of bounded ?A "[2, 4, 3]", OF okA finA repA] ncA spanA
  have a: "\<exists>r. normalize_image_zero_one bounded ?A = Inr r \<and>
        shape r = [3] \<and> np_min r = Inr (Fin 0) \<and> np_max r = Inr (Fin 1)"
    by auto
  from zero_one_range [of bounded ?C "[5, 5]", OF okC finC repC] cC
  have "normalize_image_zero_one bounded ?C = Inr (zeros_like ?C)" by simp
  then have c: "normalize_image_zero_one bounded ?C
                = Inr \<lparr>dtype = Float32, shape = [2], data = [Fin 0, Fin 0]\<rparr>"
    by (simp add: zeros_like_def)
  from okA repA ncA spanA a okC repC cC c show ?thesis by (intro conjI)
qed

text \<open>
  The claims as stated, for every array, fail where the subtraction of the minimum
  overflows. The float64 array \<open>[-1.5e308, 1.5e308]\<close> is not constant; its largest
  difference \<open>3e308\<close> is beyond the largest finite float64, so the shifted array is
  \<open>[0, inf]\<close> and the division by its maximum gives \<open>[0, nan]\<close>: the maximum of the
  result is NaN, not 1. (No operation of this computation rounds: \<open>bounded\<close> computes
  what IEEE 754 does.) The claim about constant arrays fails on the array of shape (0,):
  all of its (no) elements are equal, and \<open>np.min\<close> raises ValueError on it.
\<close>

theorem zero_one_range_counterexample:
  "normalize_image_zero_one bounded
       \<lparr>dtype = Float64, shape = [2], data = [Fin (- (15 * 10 ^ 307)), Fin (15 * 10 ^ 307)]\<rparr>
     = Inr \<lparr>dtype = Float64, shape = [2], data = [Fin 0, NaN]\<rparr> \<and>
   np_max \<lparr>dtype = Float64, shape = [2], data = [Fin 0, NaN]\<rparr> = Inr NaN \<and>
   is_constant \<lparr>dtype = Float64, shape = [0], data = [] :: fval list\<rparr> \<and>
   normalize_image_zero_one bounded \<lparr>dtype = Float64, shape = [0], data = []\<rparr> = Inl ValueError"
  by (simp add: normalize_image_zero_one_def np_min_def np_max_def subtract_def
      true_divide_def bounded_def fround_def in_range_def fminimum_def fmaximum_def
      is_constant_def)

text \<open>
  On that array the second application does not return the result of the first: the
  minimum of \<open>[0, nan]\<close> is NaN, and subtracting it gives \<open>[nan, nan]\<close>.
\<close>

theorem zero_one_idempotent_counterexample:
  "normalize_image_zero_one bounded
       \<lparr>dtype = Float64, shape = [2], data = [Fin (- (15 * 10 ^ 307)), Fin (15 * 10 ^ 307)]\<rparr>
     = Inr \<lparr>dtype = Float64, shape = [2], data = [Fin 0, NaN]\<rparr> \<and>
   normalize_image_zero_one bounded \<lparr>dtype = Float64, shape = [2], data = [Fin 0, NaN]\<rparr>
     = Inr \<lparr>dtype = Float64, shape = [2], data = [NaN, NaN]\<rparr>"
  by (simp add: normalize_image_zero_one_def np_min_def np_max_def subtract_def
      true_divide_def bounded_def fround_def in_range_def fminimum_def fmaximum_def)

text \<open>
  Claim C7. \<open>normalize\<close> returns what \<open>normalize_image_center_scale\<close> returns when
  the content is "Brightfield", and what \<open>normalize_image_zero_one\<close> returns (or
  raises) for every other content string.
\<close>

theorem normalize_dispatch:
  "normalize fl im ''Brightfield'' = Inr (normalize_image_center_scale fl im) \<and>
   (content \<noteq> ''Brightfield'' \<longrightarrow>
      normalize fl im content = normalize_image_zero_one fl im)"
  by (simp add: normalize_def)

theorem normalize_dispatch_witness:
  "''DNA'' \<noteq> ''Brightfield'' \<and>
   normalize exact \<lparr>dtype = Float64, shape = [3], data = [Fin 2, Fin 4, Fin 3]\<rparr> ''DNA''
     = Inr \<lparr>dtype = Float64, shape = [3], data = [Fin 0, Fin 1, Fin (1 / 2)]\<rparr> \<and>
   normalize exact \<lparr>dtype = Float64, shape = [2], data = [Fin 1, Fin 1]\<rparr> ''Brightfield''
     = Inr (normalize_image_center_scale exact
              \<lparr>dtype = Float64, shape = [2], data = [Fin 1, Fin 1]\<rparr>) \<and>
   normalize_image_center_scale exact \<lparr>dtype = Float64, shape = [2], data = [Fin 1, Fin 1]\<rparr>
     = \<lparr>dtype = Float64, shape = [2], data = [NaN, NaN]\<rparr>"
proof -
  let ?A = "\<lparr>dtype = Float64, shape = [3], data = [Fin 2, Fin 4, Fin 3]\<rparr>"
  let ?B = "\<lparr>dtype = Float64, shape = [2], data = [Fin 1, Fin 1]\<rparr>"
  have ne: "''DNA'' \<noteq> ''Brightfield''" by simp
  have z: "normalize_image_zero_one exact ?A
           = Inr \<lparr>dtype = Float64, shape = [3], data = [Fin 0, Fin 1, Fin (1 / 2)]\<rparr>"
    by (simp add: normalize_image_zero_one_def np_min_def np_max_def subtract_def
        true_divide_def exact_def fround_def in_range_def fminimum_def fmaximum_def)
  from normalize_dispatch [of exact ?A "''DNA''"] ne
  have a: "normalize exact ?A ''DNA''
           = Inr \<lparr>dtype = Float64, shape = [3], data = [Fin 0, Fin 1, Fin (1 / 2)]\<rparr>"
    unfolding z by simp
  from normalize_dispatch [of exact ?B]
  have b: "normalize exact ?B ''Brightfield'' = Inr (normalize_image_center_scale exact ?B)"
    by simp
  have c: "normalize_image_center_scale exact ?B
           = \<lparr>dtype = Float64, shape = [2], data = [NaN, NaN]\<rparr>"
    by (simp add: normalize_image_center_scale_def np_mean_def np_std_def fmean_def
        subtract_def true_divide_def exact_def fround_def in_range_def Let_def)
  from ne a b c show ?thesis by (intro conjI)
qed

section \<open>Normalizer: centring and scaling\<close>


subsection \<open>Constant arrays\<close>











subsection \<open>Arrays that are not constant, in real arithmetic\<close>














section \<open>Quantizer: range and frame\<close>

lemma float_to_uint_U:
  "shape (h ! im) \<noteq> [] \<Longrightarrow>
   float_to_uint fl h im (U u) =
     (h @ [assign_where (\<lambda>x. feq x (fround (fl (dtype (h ! im))) (real (2 ^ bits u - 1 + 1))))
             (fround (fl (dtype (h ! im))) (real (2 ^ bits u - 1 + 1) - 1))
             (multiply fl (h ! im) (fround (fl (dtype (h ! im))) (real (2 ^ bits u - 1 + 1))))],
      Inr (astype_uint
             (assign_where (\<lambda>x. feq x (fround (fl (dtype (h ! im))) (real (2 ^ bits u - 1 + 1))))
                (fround (fl (dtype (h ! im))) (real (2 ^ bits u - 1 + 1) - 1))
                (multiply fl (h ! im) (fround (fl (dtype (h ! im))) (real (2 ^ bits u - 1 + 1)))))
             u))"
  by (simp add: float_to_uint_def iinfo_max_def alloc_def Let_def multiply_def)

lemma float_to_uint_scalar:
  "shape (h ! im) = [] \<Longrightarrow> float_to_uint fl h im (U u) = (h, Inl TypeError)"
  by (simp add: float_to_uint_def)

lemma float_to_uint_F: "float_to_uint fl h im (F d) = (h, Inl ValueError)"
  by (simp add: float_to_uint_def)

lemma float_to_uint_uint8_data:
  assumes ok: "format_ok (fl (dtype (h ! im)))" and rank: "shape (h ! im) \<noteq> []"
    and run: "float_to_uint fl h im (U UInt8) = (h', Inr r)"
  shows "dtype r = UInt8 \<and> shape r = shape (h ! im) \<and>
         data r = map (\<lambda>v. cast_uint UInt8
                   (if feq (fmul (fl (dtype (h ! im))) v (Fin 256)) (Fin 256) then Fin 255
                    else fmul (fl (dtype (h ! im))) v (Fin 256))) (data (h ! im))"
proof -
  have a: "fround (fl (dtype (h ! im))) 256 = Fin 256"
    using fround_int [OF ok, of 256] by simp
  have b: "fround (fl (dtype (h ! im))) 255 = Fin 255"
    using fround_int [OF ok, of 255] by simp
  from run show ?thesis unfolding float_to_uint_U [OF rank]
    by (auto simp: astype_uint_def assign_where_def multiply_def a b)
qed

lemma cast_uint8_in_range:
  assumes "0 \<le> y" and "y < 256"
  shows "int (cast_uint UInt8 (Fin y)) = \<lfloor>y\<rfloor> \<and> cast_uint UInt8 (Fin y) \<le> 255"
proof -
  from assms have "0 \<le> \<lfloor>y\<rfloor>" "\<lfloor>y\<rfloor> < 256" by (simp_all add: floor_less_iff)
  then have m: "\<lfloor>y\<rfloor> mod 256 = \<lfloor>y\<rfloor>" by simp
  have c: "cast_uint UInt8 (Fin y) = nat \<lfloor>y\<rfloor>" using assms m by simp
  from \<open>0 \<le> \<lfloor>y\<rfloor>\<close> \<open>\<lfloor>y\<rfloor> < 256\<close> have "int (nat \<lfloor>y\<rfloor>) = \<lfloor>y\<rfloor>" "nat \<lfloor>y\<rfloor> \<le> 255"
    by linarith+
  with c show ?thesis by simp
qed

lemma scaled_to_256:
  assumes ok: "rounding_ok r" and x: "0 \<le> x" "x \<le> 1"
  shows "0 \<le> r (x * 256) \<and> r (x * 256) \<le> 256"
proof -
  from x have "0 \<le> x * 256" "x * 256 \<le> 256" by simp_all
  then have "r 0 \<le> r (x * 256)" "r (x * 256) \<le> r 256"
    by (auto intro: rounding_ok_mono [OF ok])
  then show ?thesis using ok by (simp add: rounding_ok_0 rounding_ok_256)
qed

lemma product_256:
  assumes ok: "format_ok fm" and x: "0 \<le> x" "x \<le> 1"
  shows "fmul fm (Fin x) (Fin 256) = Fin (rnd fm (x * 256))"
proof -
  have "rnd fm 256 = 256" using format_ok_rounding [OF ok] by (rule rounding_ok_256)
  moreover have "in_range fm 256" using ok by (rule in_range_small) simp
  ultimately have b: "in_range fm (rnd fm 256)" by simp
  from x have "0 \<le> x * 256" "x * 256 \<le> 256" by simp_all
  with ok have "fround fm (x * 256) = Fin (rnd fm (x * 256))" using b by (rule fround_between)
  then show ?thesis by simp
qed

lemma quantised_element:
  assumes ok: "format_ok fm" and x: "0 \<le> x" "x \<le> 1"
  defines "q \<equiv> cast_uint UInt8
                 (if feq (fmul fm (Fin x) (Fin 256)) (Fin 256) then Fin 255
                  else fmul fm (Fin x) (Fin 256))"
  shows "q \<le> 255 \<and>
         int q = (if rnd fm (x * 256) = 256 then 255 else \<lfloor>rnd fm (x * 256)\<rfloor>)"
proof (cases "rnd fm (x * 256) = 256")
  case True
  have "int (cast_uint UInt8 (Fin 255)) = \<lfloor>255 :: real\<rfloor> \<and> cast_uint UInt8 (Fin 255) \<le> 255"
    by (rule cast_uint8_in_range) simp_all
  with True show ?thesis unfolding q_def product_256 [OF ok x] by simp
next
  case False
  with scaled_to_256 [OF format_ok_rounding [OF ok] x]
  have "0 \<le> rnd fm (x * 256)" "rnd fm (x * 256) < 256" by simp_all
  then have "int (cast_uint UInt8 (Fin (rnd fm (x * 256)))) = \<lfloor>rnd fm (x * 256)\<rfloor> \<and>
             cast_uint UInt8 (Fin (rnd fm (x * 256))) \<le> 255"
    by (rule cast_uint8_in_range)
  with False show ?thesis unfolding q_def product_256 [OF ok x]
    by (simp del: cast_uint.simps)
qed

text \<open>
  Claim C3, as amended. For an array of at least one dimension whose values all lie in
  [0, 1] and the target type uint8, \<open>float_to_uint\<close> returns a uint8 array of the same
  shape in which every element is at most 255 and is the truncated product with 256,
  the value 256 itself replaced by 255: the cast never wraps. In particular the array
  [1.0] gives [255].
\<close>

theorem float_to_uint_range:
  assumes ok: "format_ok (fl (dtype (h ! im)))" and live: "im < length h"
    and rank: "shape (h ! im) \<noteq> []"
    and fin: "data (h ! im) = map Fin xs"
    and unit: "\<forall>x \<in> set xs. 0 \<le> x \<and> x \<le> 1"
  shows "\<exists>h' r. float_to_uint fl h im (U UInt8) = (h', Inr r) \<and>
           dtype r = UInt8 \<and> shape r = shape (h ! im) \<and>
           length (data r) = length xs \<and>
           (\<forall>i < length xs.
              data r ! i \<le> 255 \<and>
              int (data r ! i) =
                (if rnd (fl (dtype (h ! im))) (xs ! i * 256) = 256 then 255
                 else \<lfloor>rnd (fl (dtype (h ! im))) (xs ! i * 256)\<rfloor>)) \<and>
           (xs = [1] \<longrightarrow> data r = [255])"
proof -
  let ?fm = "fl (dtype (h ! im))"
  let ?q = "\<lambda>v. cast_uint UInt8
                   (if feq (fmul ?fm v (Fin 256)) (Fin 256) then Fin 255
                    else fmul ?fm v (Fin 256))"
  obtain h' res where run: "float_to_uint fl h im (U UInt8) = (h', Inr res)"
    by (simp add: float_to_uint_U [OF rank])
  from float_to_uint_uint8_data [OF ok rank run]
  have d: "dtype res = UInt8" and s: "shape res = shape (h ! im)"
    and dat: "data res = map ?q (data (h ! im))" by simp_all
  have len: "length (data res) = length xs" by (simp add: dat fin)
  have elems: "\<forall>i < length xs.
              data res ! i \<le> 255 \<and>
              int (data res ! i) =
                (if rnd ?fm (xs ! i * 256) = 256 then 255 else \<lfloor>rnd ?fm (xs ! i * 256)\<rfloor>)"
  proof (intro allI impI)
    fix i assume i: "i < length xs"
    then have mem: "xs ! i \<in> set xs" by simp
    with unit have x: "0 \<le> xs ! i" "xs ! i \<le> 1" by auto
    from i have "data res ! i = ?q (Fin (xs ! i))" by (simp add: dat fin del: fmul.simps)
    with quantised_element [OF ok x]
    show "data res ! i \<le> 255 \<and>
              int (data res ! i) =
                (if rnd ?fm (xs ! i * 256) = 256 then 255 else \<lfloor>rnd ?fm (xs ! i * 256)\<rfloor>)"
      by simp
  qed
  have one: "xs = [1] \<longrightarrow> data res = [255]"
  proof
    assume one: "xs = [1]"
    have "fmul ?fm (Fin 1) (Fin 256) = Fin 256"
      using product_256 [OF ok, of 1] rounding_ok_256 [OF format_ok_rounding [OF ok]] by simp
    then have "?q (Fin 1) = 255" by (simp del: fmul.simps)
    with one show "data res = [255]" by (simp add: dat fin del: fmul.simps)
  qed
  from run d s len elems one show ?thesis by blast
qed

theorem float_to_uint_range_witness:
  "format_ok (exact (dtype ([\<lparr>dtype = Float64, shape = [3], data = map Fin [0, 1 / 2, 1]\<rparr>] ! 0))) \<and>
   (0::nat) < length [\<lparr>dtype = Float64, shape = [3], data = map Fin [0, 1 / 2, 1]\<rparr>] \<and>
   shape ([\<lparr>dtype = Float64, shape = [3], data = map Fin [0, 1 / 2, 1]\<rparr>] ! 0) \<noteq> [] \<and>
   list_all (\<lambda>x. 0 \<le> x \<and> x \<le> 1) [0, 1 / 2, 1 :: real] \<and>
   snd (float_to_uint exact [\<lparr>dtype = Float64, shape = [3], data = map Fin [0, 1 / 2, 1]\<rparr>] 0
          (U UInt8))
     = Inr \<lparr>dtype = UInt8, shape = [3], data = [0, 128, 255]\<rparr> \<and>
   snd (float_to_uint exact [\<lparr>dtype = Float64, shape = [1], data = map Fin [1]\<rparr>] 0 (U UInt8))
     = Inr \<lparr>dtype = UInt8, shape = [1], data = [255]\<rparr>"
proof -
  let ?A = "\<lparr>dtype = Float64, shape = [3], data = map Fin [0, 1 / 2, 1]\<rparr>"
  let ?B = "\<lparr>dtype = Float64, shape = [1], data = map Fin [1]\<rparr>"
  have okA: "format_ok (exact (dtype ([?A] ! 0)))" and okB: "format_ok (exact (dtype ([?B] ! 0)))"
    by (rule format_ok_exact)+
  have live: "(0::nat) < length [?A]" "(0::nat) < length [?B]" by simp_all
  have rank: "shape ([?A] ! 0) \<noteq> []" "shape ([?B] ! 0) \<noteq> []" by simp_all
  have fin: "data ([?A] ! 0) = map Fin [0, 1 / 2, 1]" "data ([?B] ! 0) = map Fin [1]"
    by simp_all
  have unitA: "\<forall>x \<in> set [0, 1 / 2, 1 :: real]. 0 \<le> x \<and> x \<le> 1"
    and unitB: "\<forall>x \<in> set [1 :: real]. 0 \<le> x \<and> x \<le> 1" by simp_all
  have la: "list_all (\<lambda>x. 0 \<le> x \<and> x \<le> 1) [0, 1 / 2, 1 :: real]" by simp
  from float_to_uint_range [of exact "[?A]" 0 "[0, 1 / 2, 1]", OF okA live(1) rank(1) fin(1) unitA]
  obtain h' r where run: "float_to_uint exact [?A] 0 (U UInt8) = (h', Inr r)"
    and "dtype r = UInt8" "shape r = shape ([?A] ! 0)" by blast
  have a: "snd (float_to_uint exact [?A] 0 (U UInt8))
             = Inr \<lparr>dtype = UInt8, shape = [3], data = [0, 128, 255]\<rparr>"
    by (simp add: float_to_uint_def iinfo_max_def alloc_def astype_uint_def assign_where_def
        multiply_def exact_def fround_def in_range_def)
  from float_to_uint_range [of exact "[?B]" 0 "[1]", OF okB live(2) rank(2) fin(2) unitB]
  obtain h2 r2 where run2: "float_to_uint exact [?B] 0 (U UInt8) = (h2, Inr r2)"
    and r2: "dtype r2 = UInt8" "shape r2 = shape ([?B] ! 0)" "data r2 = [255]" by auto
  from r2 have "r2 = \<lparr>dtype = UInt8, shape = [1], data = [255]\<rparr>" by (cases r2) simp
  with run2 have b: "snd (float_to_uint exact [?B] 0 (U UInt8))
             = Inr \<lparr>dtype = UInt8, shape = [1], data = [255]\<rparr>" by simp
  from okA live(1) rank(1) la a b show ?thesis by (intro conjI)
qed

text \<open>
  The claim as stated, for every array, fails on a zero-dimensional array: the product
  \<open>im * imax\<close> is then a numpy scalar, and the masked assignment on it raises
  TypeError. The zero-dimensional float64 array holding 1.0 has its value in [0, 1], and
  \<open>float_to_uint\<close> returns no array for it.
\<close>

theorem float_to_uint_range_counterexample:
  "float_to_uint bounded [\<lparr>dtype = Float64, shape = [], data = [Fin 1]\<rparr>] 0 (U UInt8)
     = ([\<lparr>dtype = Float64, shape = [], data = [Fin 1]\<rparr>], Inl TypeError)"
  by (simp add: float_to_uint_def)

text \<open>
  Claim C10. \<open>float_to_uint\<close> leaves every array object that existed before the call
  as it was, the caller's \<open>im\<close> among them, whatever the target dtype and whether or not
  it raises: the product is a new object, and the masked assignment writes into that one.
\<close>

theorem float_to_uint_frame:
  assumes live: "im < length h"
  shows "take (length h) (fst (float_to_uint fl h im uint_dtype)) = h \<and>
         fst (float_to_uint fl h im uint_dtype) ! im = h ! im"
proof (cases uint_dtype)
  case (F d)
  then show ?thesis by (simp add: float_to_uint_F)
next
  case (U u)
  show ?thesis
  proof (cases "shape (h ! im) = []")
    case True
    with U show ?thesis by (simp add: float_to_uint_scalar)
  next
    case False
    with U live show ?thesis by (simp add: float_to_uint_U nth_append)
  qed
qed

theorem float_to_uint_frame_witness:
  "(0::nat) < length [\<lparr>dtype = Float64, shape = [3], data = [Fin 0, Fin (1 / 2), Fin 1]\<rparr>] \<and>
   fst (float_to_uint exact [\<lparr>dtype = Float64, shape = [3], data = [Fin 0, Fin (1 / 2), Fin 1]\<rparr>]
          0 (U UInt8))
     = [\<lparr>dtype = Float64, shape = [3], data = [Fin 0, Fin (1 / 2), Fin 1]\<rparr>,
        \<lparr>dtype = Float64, shape = [3], data = [Fin 0, Fin 128, Fin 255]\<rparr>] \<and>
   fst (float_to_uint exact [\<lparr>dtype = Float64, shape = [3], data = [Fin 0, Fin (1 / 2), Fin 1]\<rparr>]
          0 (U UInt8)) ! 0
     = \<lparr>dtype = Float64, shape = [3], data = [Fin 0, Fin (1 / 2), Fin 1]\<rparr>"
proof -
  let ?A = "\<lparr>dtype = Float64, shape = [3], data = [Fin 0, Fin (1 / 2), Fin 1]\<rparr>"
  have live: "(0::nat) < length [?A]" by simp
  have e: "fst (float_to_uint exact [?A] 0 (U UInt8))
            = [?A, \<lparr>dtype = Float64, shape = [3], data = [Fin 0, Fin 128, Fin 255]\<rparr>]"
    by (simp add: float_to_uint_def iinfo_max_def alloc_def assign_where_def multiply_def
        exact_def fround_def in_range_def)
  from float_to_uint_frame [of 0 "[?A]" exact "U UInt8", OF live]
  have "fst (float_to_uint exact [?A] 0 (U UInt8)) ! 0 = ?A" by simp
  with live e show ?thesis by (intro conjI)
qed

section \<open>VolumePreprocessor: shape and dtype of the result\<close>

lemma zero_one_shape_dtype:
  "normalize_image_zero_one fl a = Inr r \<Longrightarrow> shape r = shape a \<and> dtype r = dtype a"
  by (auto simp: normalize_image_zero_one_def Let_def subtract_def true_divide_def
      split: sum.splits if_splits)

lemma astype_shape_dtype:
  "shape (astype fl raw d) = array_shape raw \<and> dtype (astype fl raw d) = d"
  by (cases raw) simp_all

lemma contains_uint: "contains ''uint'' (str_dtype t) \<longleftrightarrow> (\<exists>u. t = U u)"
proof (cases t)
  case (F d)
  then show ?thesis by (cases d) (simp_all add: str_dtype_def)
next
  case (U u)
  then show ?thesis by (cases u) (simp_all add: str_dtype_def)
qed

lemma float_to_uint_shape_dtype:
  "snd (float_to_uint fl [a] 0 (U u)) = Inr r \<Longrightarrow> shape r = shape a \<and> dtype r = u"
  by (cases "shape a = []")
    (auto simp: float_to_uint_U float_to_uint_scalar astype_uint_def assign_where_def
      multiply_def)

lemma sum_bind_Inr:
  "(case x of Inl e \<Rightarrow> Inl e | Inr v \<Rightarrow> f v) = Inr r \<Longrightarrow> \<exists>v. x = Inr v \<and> f v = Inr r"
  by (cases x) auto

lemma prep_fish_shape_dtype:
  assumes run: "prep_fish fl img channel T clip_percentiles median_subtract math_dtype out_dtype = Inr r"
  shows "(\<exists>raw. get_image_data img T channel = Inr raw \<and> array_shape r = array_shape raw) \<and>
         array_dtype r = (case out_dtype of U u \<Rightarrow> U u | F d \<Rightarrow> F math_dtype)"
proof -
  from run [unfolded prep_fish_def] obtain raw where
    raw: "get_image_data img T channel = Inr raw" and
    r1: "(let img3d = astype fl raw math_dtype in
     (case list_item clip_percentiles 0 of
        Inl e \<Rightarrow> Inl e
      | Inr q0 \<Rightarrow>
     (case percentile fl img3d q0 of
        Inl e \<Rightarrow> Inl e
      | Inr a_min \<Rightarrow>
     (case list_item clip_percentiles 1 of
        Inl e \<Rightarrow> Inl e
      | Inr q1 \<Rightarrow>
     (case percentile fl img3d q1 of
        Inl e \<Rightarrow> Inl e
      | Inr a_max \<Rightarrow>
     let clipped = clip img3d a_min a_max in
     (case (if median_subtract
            then (if shape clipped = [] then Inl TypeError
                  else Inr (assign_where (\<lambda>x. fless x (Fin 0)) (Fin 0)
                              (subtract fl clipped (median fl clipped))))
            else Inr clipped) of
        Inl e \<Rightarrow> Inl e
      | Inr img3d' \<Rightarrow>
     (case normalize_image_zero_one fl img3d' of
        Inl e \<Rightarrow> Inl e
      | Inr normed \<Rightarrow>
          if contains ''uint'' (str_dtype out_dtype)
          then (case snd (float_to_uint fl [normed] 0 out_dtype) of
                  Inl e \<Rightarrow> Inl e
                | Inr q \<Rightarrow> Inr (UIntArray q))
          else Inr (FloatArray normed)))))))) = Inr r"
    by (blast dest: sum_bind_Inr)
  define img3d where "img3d = astype fl raw math_dtype"
  from r1 [unfolded Let_def, folded img3d_def] obtain q0 where
    r2: "(case percentile fl img3d q0 of
        Inl e \<Rightarrow> Inl e
      | Inr a_min \<Rightarrow>
     (case list_item clip_percentiles 1 of
        Inl e \<Rightarrow> Inl e
      | Inr q1 \<Rightarrow>
     (case percentile fl img3d q1 of
        Inl e \<Rightarrow> Inl e
      | Inr a_max \<Rightarrow>
     (case (if median_subtract
            then (if shape (clip img3d a_min a_max) = [] then Inl TypeError
                  else Inr (assign_where (\<lambda>x. fless x (Fin 0)) (Fin 0)
                              (subtract fl (clip img3d a_min a_max)
                                 (median fl (clip img3d a_min a_max)))))
            else Inr (clip img3d a_min a_max)) of
        Inl e \<Rightarrow> Inl e
      | Inr img3d' \<Rightarrow>
     (case normalize_image_zero_one fl img3d' of
        Inl e \<Rightarrow> Inl e
      | Inr normed \<Rightarrow>
          if contains ''uint'' (str_dtype out_dtype)
          then (case snd (float_to_uint fl [normed] 0 out_dtype) of
                  Inl e \<Rightarrow> Inl e
                | Inr q \<Rightarrow> Inr (UIntArray q))
          else Inr (FloatArray normed)))))) = Inr r"
    by (blast dest: sum_bind_Inr)
  from r2 obtain a_min where
    r3: "(case list_item clip_percentiles 1 of
        Inl e \<Rightarrow> Inl e
      | Inr q1 \<Rightarrow>
     (case percentile fl img3d q1 of
        Inl e \<Rightarrow> Inl e
      | Inr a_max \<Rightarrow>
     (case (if median_subtract
            then (if shape (clip img3d a_min a_max) = [] then Inl TypeError
                  else Inr (assign_where (\<lambda>x. fless x (Fin 0)) (Fin 0)
                              (subtract fl (clip img3d a_min a_max)
                                 (median fl (clip img3d a_min a_max)))))
            else Inr (clip img3d a_min a_max)) of
        Inl e \<Rightarrow> Inl e
      | Inr img3d' \<Rightarrow>
     (case normalize_image_zero_one fl img3d' of
        Inl e \<Rightarrow> Inl e
      | Inr normed \<Rightarrow>
          if contains ''uint'' (str_dtype out_dtype)
          then (case snd (float_to_uint fl [normed] 0 out_dtype) of
                  Inl e \<Rightarrow> Inl e
                | Inr q \<Rightarrow> Inr (UIntArray q))
          else Inr (FloatArray normed))))) = Inr r"
    by (blast dest: sum_bind_Inr)
  from r3 obtain q1 where
    r4: "(case percentile fl img3d q1 of
        Inl e \<Rightarrow> Inl e
      | Inr a_max \<Rightarrow>
     (case (if median_subtract
            then (if shape (clip img3d a_min a_max) = [] then Inl TypeError
                  else Inr (assign_where (\<lambda>x. fless x (Fin 0)) (Fin 0)
                              (subtract fl (clip img3d a_min a_max)
                                 (median fl (clip img3d a_min a_max)))))
            else Inr (clip img3d a_min a_max)) of
        Inl e \<Rightarrow> Inl e
      | Inr img3d' \<Rightarrow>
     (case normalize_image_zero_one fl img3d' of
        Inl e \<Rightarrow> Inl e
      | Inr normed \<Rightarrow>
          if contains ''uint'' (str_dtype out_dtype)
          then (case snd (float_to_uint fl [normed] 0 out_dtype) of
                  Inl e \<Rightarrow> Inl e
                | Inr q \<Rightarrow> Inr (UIntArray q))
          else Inr (FloatArray normed)))) = Inr r"
    by (blast dest: sum_bind_Inr)
  from r4 obtain a_max where
    r5: "(case (if median_subtract
            then (if shape (clip img3d a_min a_max) = [] then Inl TypeError
                  else Inr (assign_where (\<lambda>x. fless x (Fin 0)) (Fin 0)
                              (subtract fl (clip img3d a_min a_max)
                                 (median fl (clip img3d a_min a_max)))))
            else Inr (clip img3d a_min a_max)) of
        Inl e \<Rightarrow> Inl e
      | Inr img3d' \<Rightarrow>
     (case normalize_image_zero_one fl img3d' of
        Inl e \<Rightarrow> Inl e
      | Inr normed \<Rightarrow>
          if contains ''uint'' (str_dtype out_dtype)
          then (case snd (float_to_uint fl [normed] 0 out_dtype) of
                  Inl e \<Rightarrow> Inl e
                | Inr q \<Rightarrow> Inr (UIntArray q))
          else Inr (FloatArray normed))) = Inr r"
    by (blast dest: sum_bind_Inr)
  from r5 obtain img3d' where
    m: "(if median_subtract
            then (if shape (clip img3d a_min a_max) = [] then Inl TypeError
                  else Inr (assign_where (\<lambda>x. fless x (Fin 0)) (Fin 0)
                              (subtract fl (clip img3d a_min a_max)
                                 (median fl (clip img3d a_min a_max)))))
            else Inr (clip img3d a_min a_max)) = Inr img3d'" and
    r6: "(case normalize_image_zero_one fl img3d' of
        Inl e \<Rightarrow> Inl e
      | Inr normed \<Rightarrow>
          if contains ''uint'' (str_dtype out_dtype)
          then (case snd (float_to_uint fl [normed] 0 out_dtype) of
                  Inl e \<Rightarrow> Inl e
                | Inr q \<Rightarrow> Inr (UIntArray q))
          else Inr (FloatArray normed)) = Inr r"
    by (blast dest: sum_bind_Inr)
  from r6 obtain normed where
    z: "normalize_image_zero_one fl img3d' = Inr normed" and
    out: "(if contains ''uint'' (str_dtype out_dtype)
        then (case snd (float_to_uint fl [normed] 0 out_dtype) of
                Inl e \<Rightarrow> Inl e
              | Inr q \<Rightarrow> Inr (UIntArray q))
        else Inr (FloatArray normed)) = Inr r"
    by (blast dest: sum_bind_Inr)
  have pre: "shape img3d' = array_shape raw \<and> dtype img3d' = math_dtype"
    using m astype_shape_dtype [of fl raw math_dtype]
    by (auto simp: img3d_def clip_def assign_where_def subtract_def split: if_splits)
  with zero_one_shape_dtype [OF z] have n: "shape normed = array_shape raw" "dtype normed = math_dtype"
    by simp_all
  show ?thesis
  proof (cases out_dtype)
    case (F d)
    then have "\<not> contains ''uint'' (str_dtype out_dtype)" by (simp add: contains_uint)
    with out have "r = FloatArray normed" by simp
    with n raw F show ?thesis by simp
  next
    case (U u)
    then have "contains ''uint'' (str_dtype out_dtype)" by (simp add: contains_uint)
    with out U obtain q where q: "snd (float_to_uint fl [normed] 0 (U u)) = Inr q" "r = UIntArray q"
      by (auto split: sum.splits)
    from float_to_uint_shape_dtype [OF q(1)] n q(2) raw U show ?thesis by simp
  qed
qed

text \<open>
  Claim C2. The shape half holds (\<open>prep_fish_shape_dtype\<close>). The dtype half fails for a
  float \<open>out_dtype\<close> other than \<open>math_dtype\<close>: with the default \<open>math_dtype\<close> float64
  and \<open>out_dtype\<close> float32, the returned array is float64, since only an unsigned
  integer \<open>out_dtype\<close> is ever applied.
\<close>

theorem prep_fish_float32_returns_float64:
  "prep_fish exact
     \<lparr>get_image_data = (\<lambda>T C. Inr (UIntArray \<lparr>dtype = UInt16, shape = [1, 1, 2], data = [0, 1]\<rparr>))\<rparr>
     1 0 [0, 99.99] True Float64 (F Float32)
   = Inr (FloatArray \<lparr>dtype = Float64, shape = [1, 1, 2], data = [Fin 0, Fin 1]\<rparr>)"
  by (simp add: prep_fish_def list_item_def percentile_def clip_def median_def fsort_def
      lerp_def fmean_def fminimum_def fmaximum_def assign_where_def subtract_def
      normalize_image_zero_one_def np_min_def np_max_def true_divide_def exact_def
      fround_def in_range_def str_dtype_def Let_def)

end
